theory Spec2Isabelle
  imports Main "HOL-Library.Sublist"
begin

section \<open>Python strings, exceptions and effects\<close>

text \<open>
  A Python \<open>str\<close> is modelled as a \<open>string\<close> in which every \<open>char\<close> is one code point below
  256 (Latin-1), so that \<open>length\<close> is Python's \<open>len\<close>. The helpers below are \<open>str.isspace\<close>,
  \<open>str.strip\<close>, \<open>str.lower\<close>, \<open>str.capitalize\<close>, \<open>str.split\<close> and the operator \<open>in\<close> on that range
  (the three Latin-1 letters whose upper case lies beyond code point 255 keep their value in
  \<open>upper_char\<close>).
\<close>

definition is_space :: "char \<Rightarrow> bool" where
  "is_space c = ((of_char c :: nat) \<in> {9, 10, 11, 12, 13, 28, 29, 30, 31, 32, 133, 160})"

definition strip :: "string \<Rightarrow> string" where
  "strip s = rev (dropWhile is_space (rev (dropWhile is_space s)))"

definition lower_char :: "char \<Rightarrow> char" where
  "lower_char c =
     (let n = (of_char c :: nat)
      in if (65 \<le> n \<and> n \<le> 90) \<or> (192 \<le> n \<and> n \<le> 222 \<and> n \<noteq> 215)
         then char_of (n + 32) else c)"

definition upper_char :: "char \<Rightarrow> char" where
  "upper_char c =
     (let n = (of_char c :: nat)
      in if (97 \<le> n \<and> n \<le> 122) \<or> (224 \<le> n \<and> n \<le> 254 \<and> n \<noteq> 247)
         then char_of (n - 32) else c)"

definition lower :: "string \<Rightarrow> string" where
  "lower s = map lower_char s"

definition capitalize :: "string \<Rightarrow> string" where
  "capitalize s = (case s of [] \<Rightarrow> [] | c # cs \<Rightarrow> upper_char c # map lower_char cs)"

definition is_digit :: "char \<Rightarrow> bool" where
  "is_digit c = (c \<in> set ''0123456789'')"

text \<open>\<open>needle in hay\<close>: the needle starts at some position of the haystack.\<close>

fun contains :: "string \<Rightarrow> string \<Rightarrow> bool" where
  "contains needle [] = (needle = [])"
| "contains needle (c # cs) = (prefix needle (c # cs) \<or> contains needle cs)"

text \<open>\<open>s.split()\<close>: the maximal runs of non-whitespace characters, in order.\<close>

fun split_from :: "string \<Rightarrow> string \<Rightarrow> string list" where
  "split_from cur [] = (if cur = [] then [] else [rev cur])"
| "split_from cur (c # cs) =
     (if is_space c
      then (if cur = [] then split_from [] cs else rev cur # split_from [] cs)
      else split_from (c # cur) cs)"

definition py_split :: "string \<Rightarrow> string list" where
  "py_split s = split_from [] s"

text \<open>
  Exceptions are values: a class and the text \<open>str(e)\<close>. \<open>is_Exception\<close> is the test made
  by \<open>except Exception\<close>; \<open>KeyboardInterrupt\<close> and \<open>SystemExit\<close> derive from \<open>BaseException\<close>
  only. \<open>is_RequestException\<close> is the test made by \<open>except requests.RequestException\<close>.
\<close>

datatype exn_class =
    KeyboardInterrupt | SystemExit
  | RequestsTimeout | RequestsConnectionError | RequestsHTTPError | RequestsJSONDecodeError
  | RequestException
  | AttributeError | KeyError | IndexError | TypeError | ValueError
  | NoSuchElementException | StaleElementReferenceException | TimeoutException
  | WebDriverException
  | WhatsAppClientError | WhatsAppBlockedError
  | RuntimeError

datatype py_exn = Exn (exn_class: exn_class) (exn_str: string)

fun is_Exception :: "py_exn \<Rightarrow> bool" where
  "is_Exception (Exn KeyboardInterrupt _) = False"
| "is_Exception (Exn SystemExit _) = False"
| "is_Exception (Exn _ _) = True"

fun is_Timeout :: "py_exn \<Rightarrow> bool" where
  "is_Timeout (Exn RequestsTimeout _) = True"
| "is_Timeout (Exn _ _) = False"

fun is_RequestException :: "py_exn \<Rightarrow> bool" where
  "is_RequestException (Exn RequestsTimeout _) = True"
| "is_RequestException (Exn RequestsConnectionError _) = True"
| "is_RequestException (Exn RequestsHTTPError _) = True"
| "is_RequestException (Exn RequestsJSONDecodeError _) = True"
| "is_RequestException (Exn RequestException _) = True"
| "is_RequestException (Exn _ _) = False"

text \<open>
  The observable effects of the services: calls of the logger and the outbound HTTP request
  (URL and rendered prompt) of the sentiment service.
\<close>

datatype event =
    LogDebug string | LogInfo string | LogWarning string | LogError string
  | LogException string
  | HttpPost string string

section \<open>Phone normalisation (excel\_parser.py)\<close>

text \<open>
  \<open>ExcelParser._clean_phone\<close>: the substitution \<open>re.sub(r'[^\d+]', '', phone.strip())\<close>
  keeps exactly the digits and the character \<open>+\<close>; then one leading \<open>+\<close> and one leading
  \<open>00\<close> are cut off.
\<close>

definition clean_phone :: "string \<Rightarrow> string" where
  "clean_phone phone =
     (if phone = [] \<or> lower phone = ''nan'' then []
      else
        let cleaned = filter (\<lambda>c. is_digit c \<or> c = CHR ''+'') (strip phone);
            cleaned = (if prefix ''+'' cleaned then drop 1 cleaned else cleaned);
            cleaned = (if prefix ''00'' cleaned then drop 2 cleaned else cleaned)
        in cleaned)"

section \<open>Sentiment service (sentiment\_service.py)\<close>

datatype sentiment = POSITIVE | NEUTRAL | NEGATIVE

fun sentiment_value :: "sentiment \<Rightarrow> string" where
  "sentiment_value POSITIVE = ''Positive''"
| "sentiment_value NEUTRAL = ''Neutral''"
| "sentiment_value NEGATIVE = ''Negative''"

definition POSITIVE_KEYWORDS :: "string list" where
  "POSITIVE_KEYWORDS =
     [''great'', ''good'', ''love'', ''loved'', ''excellent'', ''awesome'',
      ''amazing'', ''happy'', ''satisfied'', ''wonderful'', ''fantastic'',
      ''perfect'', ''best'', ''thank'', ''thanks'', ''appreciate'']"

definition NEGATIVE_KEYWORDS :: "string list" where
  "NEGATIVE_KEYWORDS =
     [''bad'', ''terrible'', ''disappoint'', ''disappointed'', ''poor'',
      ''hate'', ''unhappy'', ''problem'', ''issue'', ''worst'', ''awful'',
      ''horrible'', ''never'', ''waste'', ''refund'', ''angry'', ''upset'']"

text \<open>The fields of \<open>SentimentService\<close> read from the settings (the temperature is omitted).\<close>

record sentiment_service =
  api_key :: string
  api_url :: string
  model_name :: string
  timeout_seconds :: nat

text \<open>
  The decoded body of a response. A JSON object keeps its members in order; Python's decoder
  lets the last of several equal keys win.
\<close>

datatype json =
    JNull | JBool bool | JNum int | JStr string | JArr "json list"
  | JObj "(string \<times> json) list"

text \<open>
  What \<open>requests.post\<close> does for a prompt: it raises, or it returns a response, given by what
  \<open>raise_for_status()\<close> raises (if anything) and what \<open>json()\<close> returns or raises.
\<close>

datatype http_result =
    PostRaises py_exn
  | PostResponse "py_exn option" "py_exn + json"

fun truthy :: "json \<Rightarrow> bool" where
  "truthy JNull = False"
| "truthy (JBool b) = b"
| "truthy (JNum n) = (n \<noteq> 0)"
| "truthy (JStr s) = (s \<noteq> [])"
| "truthy (JArr xs) = (xs \<noteq> [])"
| "truthy (JObj kvs) = (kvs \<noteq> [])"

text \<open>\<open>d.get(key, default)\<close>: only a dict has the method.\<close>

fun py_get :: "json \<Rightarrow> string \<Rightarrow> json \<Rightarrow> py_exn + json" where
  "py_get (JObj kvs) k dflt = Inr (case map_of (rev kvs) k of None \<Rightarrow> dflt | Some v \<Rightarrow> v)"
| "py_get _ k dflt = Inl (Exn AttributeError ''object has no attribute get'')"

text \<open>\<open>x[0]\<close> on a decoded JSON value.\<close>

fun py_index0 :: "json \<Rightarrow> py_exn + json" where
  "py_index0 (JArr []) = Inl (Exn IndexError ''list index out of range'')"
| "py_index0 (JArr (x # xs)) = Inr x"
| "py_index0 (JStr []) = Inl (Exn IndexError ''string index out of range'')"
| "py_index0 (JStr (c # cs)) = Inr (JStr [c])"
| "py_index0 (JObj kvs) = Inl (Exn KeyError ''0'')"
| "py_index0 _ = Inl (Exn TypeError ''object is not subscriptable'')"

text \<open>\<open>x.strip()\<close>: only a str has the method.\<close>

fun py_strip :: "json \<Rightarrow> py_exn + string" where
  "py_strip (JStr s) = Inr (strip s)"
| "py_strip _ = Inl (Exn AttributeError ''object has no attribute strip'')"

text \<open>
  \<open>_extract_response_content\<close>: the inner handler catches \<open>KeyError\<close>, \<open>IndexError\<close> and
  \<open>TypeError\<close> and then returns the empty string; any other exception leaves the function.
\<close>

definition extract_body :: "json \<Rightarrow> py_exn + string" where
  "extract_body data =
     (case py_get data ''choices'' (JArr []) of
        Inl e \<Rightarrow> Inl e
      | Inr choices \<Rightarrow>
          if truthy choices then
            (case py_index0 choices of
               Inl e \<Rightarrow> Inl e
             | Inr first \<Rightarrow>
                 (case py_get first ''message'' (JObj []) of
                    Inl e \<Rightarrow> Inl e
                  | Inr message \<Rightarrow>
                      (case py_get message ''content'' (JStr []) of
                         Inl e \<Rightarrow> Inl e
                       | Inr content \<Rightarrow> py_strip content)))
          else Inr [])"

definition extract_response_content :: "json \<Rightarrow> py_exn + string" where
  "extract_response_content data =
     (case extract_body data of
        Inl e \<Rightarrow>
          if exn_class e \<in> {KeyError, IndexError, TypeError} then Inr [] else Inl e
      | Inr s \<Rightarrow> Inr s)"

definition sentiment_map :: "string \<Rightarrow> sentiment option" where
  "sentiment_map =
     [''Positive'' \<mapsto> POSITIVE, ''Neutral'' \<mapsto> NEUTRAL, ''Negative'' \<mapsto> NEGATIVE]"

text \<open>\<open>_parse_sentiment_label\<close>; \<open>content.split()[0]\<close> raises on an empty list of words.\<close>

definition parse_sentiment_label :: "string \<Rightarrow> (py_exn + sentiment option) \<times> event list" where
  "parse_sentiment_label content =
     (if content = [] then (Inr None, [])
      else
        (case py_split content of
           [] \<Rightarrow> (Inl (Exn IndexError ''list index out of range''), [])
         | w # ws \<Rightarrow>
             let first_word = capitalize (strip w) in
             (case sentiment_map first_word of
                None \<Rightarrow>
                  (Inr (Some NEUTRAL),
                   [LogWarning (''Unexpected LLM label: '' @ first_word @ '', defaulting to Neutral'')])
              | Some result \<Rightarrow>
                  (Inr (Some result),
                   [LogDebug (''LLM classified as: '' @ sentiment_value result)]))))"

definition PROMPT_TEMPLATE_head :: string where
  "PROMPT_TEMPLATE_head =
     ''Classify the sentiment of the following customer message into '' @
     ''exactly one of: Positive, Neutral, Negative. '' @
     ''Reply with only the single word label. '' @
     ''If unclear or very short, reply Neutral.'' @ [CHR 0x0A, CHR 0x0A] @
     ''Message: '' @ [CHR 0x27, CHR 0x27, CHR 0x27]"

text \<open>\<open>PROMPT_TEMPLATE.format(message=text)\<close>.\<close>

definition render_prompt :: "string \<Rightarrow> string" where
  "render_prompt text = PROMPT_TEMPLATE_head @ text @ [CHR 0x27, CHR 0x27, CHR 0x27]"

text \<open>The body of the \<open>try\<close> block of \<open>_classify_with_llm\<close>.\<close>

definition llm_try_body ::
  "http_result \<Rightarrow> (py_exn + sentiment option) \<times> event list" where
  "llm_try_body res =
     (case res of
        PostRaises e \<Rightarrow> (Inl e, [])
      | PostResponse status body \<Rightarrow>
          (case status of
             Some e \<Rightarrow> (Inl e, [])
           | None \<Rightarrow>
               (case body of
                  Inl e \<Rightarrow> (Inl e, [])
                | Inr data \<Rightarrow>
                    (case extract_response_content data of
                       Inl e \<Rightarrow> (Inl e, [])
                     | Inr content \<Rightarrow> parse_sentiment_label content))))"

text \<open>
  \<open>_classify_with_llm\<close>: one request, then the three handlers in the order of the source.
  An exception that is no \<open>Exception\<close> passes all three.
\<close>

definition classify_with_llm ::
  "sentiment_service \<Rightarrow> (string \<Rightarrow> http_result) \<Rightarrow> string
     \<Rightarrow> (py_exn + sentiment option) \<times> event list" where
  "classify_with_llm svc llm text =
     (let prompt = render_prompt text;
          posted = [HttpPost (api_url svc) prompt]
      in case llm_try_body (llm prompt) of
           (Inr r, evs) \<Rightarrow> (Inr r, posted @ evs)
         | (Inl e, evs) \<Rightarrow>
             if is_Timeout e then
               (Inr None, posted @ evs @ [LogWarning ''LLM API timeout, falling back to heuristics''])
             else if is_RequestException e then
               (Inr None, posted @ evs @
                  [LogWarning (''LLM API error: '' @ exn_str e @ '', falling back to heuristics'')])
             else if is_Exception e then
               (Inr None, posted @ evs @
                  [LogException (''Unexpected error in LLM call: '' @ exn_str e)])
             else (Inl e, posted @ evs))"

definition has_positive :: "string \<Rightarrow> bool" where
  "has_positive text = list_ex (\<lambda>kw. contains kw (lower text)) POSITIVE_KEYWORDS"

definition has_negative :: "string \<Rightarrow> bool" where
  "has_negative text = list_ex (\<lambda>kw. contains kw (lower text)) NEGATIVE_KEYWORDS"

definition classify_with_heuristics :: "string \<Rightarrow> sentiment \<times> event list" where
  "classify_with_heuristics text =
     (if has_positive text \<and> \<not> has_negative text then
        (POSITIVE, [LogDebug ''Heuristic: Positive (keywords found)''])
      else if has_negative text \<and> \<not> has_positive text then
        (NEGATIVE, [LogDebug ''Heuristic: Negative (keywords found)''])
      else (NEUTRAL, [LogDebug ''Heuristic: Neutral (mixed or no keywords)'']))"

text \<open>
  \<open>SentimentService.classify\<close>. A member of the enumeration is truthy, so \<open>if result\<close>
  holds exactly when the remote tier produced a label.
\<close>

definition classify ::
  "sentiment_service \<Rightarrow> (string \<Rightarrow> http_result) \<Rightarrow> string
     \<Rightarrow> (py_exn + sentiment) \<times> event list" where
  "classify svc llm text =
     (if text = [] \<or> length (strip text) < 3 then
        (Inr NEUTRAL, [LogDebug ''Text too short, defaulting to Neutral''])
      else if api_key svc \<noteq> [] then
        (case classify_with_llm svc llm text of
           (Inl e, evs) \<Rightarrow> (Inl e, evs)
         | (Inr (Some result), evs) \<Rightarrow> (Inr result, evs)
         | (Inr None, evs) \<Rightarrow>
             (let (s, evs') = classify_with_heuristics text in (Inr s, evs @ evs')))
      else
        (let (s, evs) = classify_with_heuristics text in (Inr s, evs)))"

text \<open>
  Two conditions on what the remote call does, used to state when the remote tier is absorbed:
  every exception it raises is an \<open>Exception\<close> (not an interrupt of the process), and the call
  failed: it raised, the status check raised, the body could not be decoded, or the decoded
  body is not an object.
\<close>

fun raises_only_Exceptions :: "http_result \<Rightarrow> bool" where
  "raises_only_Exceptions (PostRaises e) = is_Exception e"
| "raises_only_Exceptions (PostResponse status body) =
     ((case status of None \<Rightarrow> True | Some e \<Rightarrow> is_Exception e) \<and>
      (case body of Inl e \<Rightarrow> is_Exception e | Inr data \<Rightarrow> True))"

fun remote_failed :: "http_result \<Rightarrow> bool" where
  "remote_failed (PostRaises e) = True"
| "remote_failed (PostResponse status body) =
     (status \<noteq> None \<or>
      (case body of Inl e \<Rightarrow> True | Inr (JObj kvs) \<Rightarrow> False | Inr other \<Rightarrow> True))"

text \<open>Two configurations: without and with a credential.\<close>

definition svc0 :: sentiment_service where
  "svc0 = \<lparr>api_key = [], api_url = ''https://openrouter.ai/api/v1/chat/completions'',
           model_name = ''meta-llama/llama-3.2-3b-instruct:free'', timeout_seconds = 30\<rparr>"

definition svc1 :: sentiment_service where
  "svc1 = \<lparr>api_key = ''sk-or-key'', api_url = ''https://openrouter.ai/api/v1/chat/completions'',
           model_name = ''meta-llama/llama-3.2-3b-instruct:free'', timeout_seconds = 30\<rparr>"

section \<open>The chat surface as environment\<close>

text \<open>
  A message element of the page, as far as \<open>_extract_text_from_message\<close> reads it: for a CSS
  selector, the texts of the elements that \<open>find_elements\<close> returns (or the exception raised
  while they are read), and the element's own visible text.
\<close>

record element =
  find_texts :: "string \<Rightarrow> py_exn + string list"
  full_text :: "py_exn + string"

text \<open>One entry of the list built by \<open>_get_message_elements\<close>: \<open>(element, is_incoming, msg_id)\<close>.\<close>

record message =
  element :: element
  is_incoming :: bool
  msg_id :: string

text \<open>
  What the browser and the operator do, as functions of the time (in seconds) at which the
  program asks: creating the driver and opening the page, waiting for the search box,
  reading the page source, the body of \<open>open_chat\<close> after the block check, the body of
  \<open>send_message\<close>, the list of \<open>_get_message_elements\<close>, \<open>driver.quit()\<close>, the time an
  interaction takes beyond one second, whether the operator interrupts a sleep of the
  orchestrator or the prompt, and the random source.
\<close>

record env =
  launch :: "nat \<Rightarrow> py_exn option"
  ready :: "nat \<Rightarrow> nat \<Rightarrow> py_exn option"
  page_source :: "nat \<Rightarrow> py_exn + string"
  navigate :: "nat \<Rightarrow> string \<Rightarrow> py_exn + bool"
  typing :: "nat \<Rightarrow> string \<Rightarrow> py_exn + bool"
  scan :: "nat \<Rightarrow> message list"
  quit :: "nat \<Rightarrow> py_exn option"
  latency :: "nat \<Rightarrow> nat"
  ctrl_c :: "nat \<Rightarrow> bool"
  random :: "nat \<Rightarrow> nat"

text \<open>Every interaction with the browser that starts at time \<open>t\<close> ends strictly later.\<close>

definition step :: "env \<Rightarrow> nat \<Rightarrow> nat" where
  "step env t = Suc (t + latency env t)"

section \<open>WhatsApp client and providers (whatsapp\_client.py, messaging\_provider.py)\<close>

record whatsapp_client =
  driver :: nat
  last_read_message_id :: "string option"

record selenium_provider =
  headless :: bool
  client :: "whatsapp_client option"
  connected :: bool

text \<open>
  The state of one automation session: the clock, the provider object and the texts that
  were submitted to the chat surface.
\<close>

record session =
  now :: nat
  provider :: selenium_provider
  outbox :: "string list"

definition BLOCK_INDICATORS :: "string list" where
  "BLOCK_INDICATORS =
     [''temporarily banned'', ''account is temporarily'', ''verify your phone'',
      ''unusual activity'']"

text \<open>\<open>_check_for_blocks\<close>, applied to what reading \<open>driver.page_source\<close> gives.\<close>

definition check_for_blocks :: "py_exn + string \<Rightarrow> py_exn + bool" where
  "check_for_blocks src =
     (case src of
        Inl e \<Rightarrow> if is_Exception e then Inr False else Inl e
      | Inr page \<Rightarrow>
          Inr (list_ex (\<lambda>indicator. contains (lower indicator) (lower page)) BLOCK_INDICATORS))"

text \<open>\<open>wait_for_login\<close>: only \<open>TimeoutException\<close> is caught.\<close>

definition wait_for_login :: "env \<Rightarrow> nat \<Rightarrow> session \<Rightarrow> (py_exn + bool) \<times> session" where
  "wait_for_login env timeout s =
     (let t = now s; s1 = s\<lparr>now := step env t\<rparr>
      in case ready env t timeout of
           None \<Rightarrow> (Inr True, s1)
         | Some e \<Rightarrow>
             if exn_class e = TimeoutException then (Inr False, s1) else (Inl e, s1))"

text \<open>
  \<open>open_chat\<close>: the block check stands before the \<open>try\<close> block, so its exception leaves the
  function; inside the block every \<open>Exception\<close> becomes \<open>False\<close>.
\<close>

definition open_chat :: "env \<Rightarrow> string \<Rightarrow> session \<Rightarrow> (py_exn + bool) \<times> session" where
  "open_chat env phone s =
     (let t = now s; s1 = s\<lparr>now := step env t\<rparr>
      in case check_for_blocks (page_source env t) of
           Inl e \<Rightarrow> (Inl e, s1)
         | Inr True \<Rightarrow> (Inl (Exn WhatsAppBlockedError ''WhatsApp blocking detected''), s1)
         | Inr False \<Rightarrow>
             (let t1 = now s1; s2 = s1\<lparr>now := step env t1\<rparr>
              in case navigate env t1 phone of
                   Inl e \<Rightarrow> if is_Exception e then (Inr False, s2) else (Inl e, s2)
                 | Inr opened \<Rightarrow> (Inr opened, s2)))"

text \<open>\<open>WhatsAppClient.send_message\<close>: the text is submitted when the body returns \<open>True\<close>.\<close>

definition client_send_message :: "env \<Rightarrow> string \<Rightarrow> session \<Rightarrow> (py_exn + bool) \<times> session" where
  "client_send_message env text s =
     (let t = now s; s1 = s\<lparr>now := step env t\<rparr>
      in case typing env t text of
           Inl e \<Rightarrow> if is_Exception e then (Inr False, s1) else (Inl e, s1)
         | Inr sent \<Rightarrow> (Inr sent, if sent then s1\<lparr>outbox := outbox s1 @ [text]\<rparr> else s1))"

definition text_selectors :: "string list" where
  "text_selectors =
     [''span.selectable-text.copyable-text > span'',
      ''span.selectable-text.copyable-text'',
      ''span.selectable-text > span'',
      ''span.selectable-text'',
      ''span[dir='' @ [CHR 0x22] @ ''ltr'' @ [CHR 0x22] @ '']'',
      ''span.copyable-text'']"

text \<open>The first text of a selector's elements that is not empty after stripping.\<close>

fun first_text :: "string list \<Rightarrow> string option" where
  "first_text [] = None"
| "first_text (t # ts) = (if strip t \<noteq> [] then Some (strip t) else first_text ts)"

text \<open>
  \<open>_extract_text_from_message\<close>: the selectors in order; \<open>NoSuchElementException\<close> and
  \<open>StaleElementReferenceException\<close> move on to the next selector, any other exception leaves
  the function; the fallback reads the element's text under a bare \<open>except\<close>.
\<close>

fun extract_with :: "element \<Rightarrow> string list \<Rightarrow> py_exn + string option" where
  "extract_with el [] =
     (case full_text el of
        Inl e \<Rightarrow> Inr None
      | Inr t \<Rightarrow> if t \<noteq> [] then Inr (Some (strip t)) else Inr None)"
| "extract_with el (selector # selectors) =
     (case find_texts el selector of
        Inl e \<Rightarrow>
          if exn_class e \<in> {NoSuchElementException, StaleElementReferenceException}
          then extract_with el selectors else Inl e
      | Inr texts \<Rightarrow>
          (case first_text texts of
             Some t \<Rightarrow> Inr (Some t)
           | None \<Rightarrow> extract_with el selectors))"

definition extract_text_from_message :: "element \<Rightarrow> py_exn + string option" where
  "extract_text_from_message el = extract_with el text_selectors"

text \<open>\<open>read_latest_incoming_message\<close>: one scan, the last incoming element.\<close>

definition read_latest_incoming_message ::
  "env \<Rightarrow> session \<Rightarrow> (py_exn + string option) \<times> session" where
  "read_latest_incoming_message env s =
     (let t = now s; s1 = s\<lparr>now := step env t\<rparr>; messages = scan env t
      in if messages = [] then (Inr None, s1)
         else
           (let incoming_messages = filter is_incoming messages
            in if incoming_messages = [] then (Inr None, s1)
               else
                 (case extract_text_from_message (element (last incoming_messages)) of
                    Inl e \<Rightarrow> if is_Exception e then (Inr None, s1) else (Inl e, s1)
                  | Inr text \<Rightarrow> (Inr text, s1))))"

text \<open>
  The \<open>for\<close> loop of \<open>wait_for_reply\<close> over the reversed list: \<open>Inr (Some text)\<close> is the
  \<open>return text\<close>, \<open>Inr None\<close> the end of the list, \<open>Inl e\<close> an exception of the extraction.
\<close>

fun find_reply :: "string set \<Rightarrow> string option \<Rightarrow> message list \<Rightarrow> py_exn + string option" where
  "find_reply baseline_messages ignore_text [] = Inr None"
| "find_reply baseline_messages ignore_text (m # ms) =
     (if \<not> is_incoming m then find_reply baseline_messages ignore_text ms
      else if msg_id m \<in> baseline_messages then find_reply baseline_messages ignore_text ms
      else
        (case extract_text_from_message (element m) of
           Inl e \<Rightarrow> Inl e
         | Inr None \<Rightarrow> find_reply baseline_messages ignore_text ms
         | Inr (Some text) \<Rightarrow>
             if text = [] then find_reply baseline_messages ignore_text ms
             else if (case ignore_text of None \<Rightarrow> False | Some ig \<Rightarrow> ig \<noteq> [] \<and> text = ig)
             then find_reply baseline_messages ignore_text ms
             else Inr (Some text)))"

text \<open>
  The \<open>while\<close> loop of \<open>wait_for_reply\<close>: the test of the clock, one scan, and a sleep of
  \<open>poll_interval\<close> seconds on every path that does not return.
\<close>

function wait_loop ::
  "env \<Rightarrow> string set \<Rightarrow> string option \<Rightarrow> nat \<Rightarrow> nat \<Rightarrow> nat \<Rightarrow> session
     \<Rightarrow> (py_exn + string option) \<times> session" where
  "wait_loop env baseline_messages ignore_text start_time timeout poll_interval s =
     (if now s - start_time < timeout then
        (if scan env (now s) = [] then
           wait_loop env baseline_messages ignore_text start_time timeout poll_interval
             (s\<lparr>now := step env (now s) + poll_interval\<rparr>)
         else
           (case find_reply baseline_messages ignore_text (rev (scan env (now s))) of
              Inr (Some text) \<Rightarrow> (Inr (Some text), s\<lparr>now := step env (now s)\<rparr>)
            | Inr None \<Rightarrow>
                wait_loop env baseline_messages ignore_text start_time timeout poll_interval
                  (s\<lparr>now := step env (now s) + poll_interval\<rparr>)
            | Inl e \<Rightarrow>
                if is_Exception e then
                  wait_loop env baseline_messages ignore_text start_time timeout poll_interval
                    (s\<lparr>now := step env (now s) + poll_interval\<rparr>)
                else (Inl e, s\<lparr>now := step env (now s)\<rparr>)))
      else (Inr None, s))"
  by pat_completeness auto
termination
  by (relation "measure (\<lambda>(env, b, ig, start_time, timeout, poll_interval, s).
                           start_time + timeout - now s)")
     (auto simp: step_def)

declare wait_loop.simps [simp del]

text \<open>The baseline: the identity tokens of the incoming messages of a scan.\<close>

definition baseline_of :: "message list \<Rightarrow> string set" where
  "baseline_of messages = set (map msg_id (filter is_incoming messages))"

text \<open>
  \<open>WhatsAppClient.wait_for_reply\<close>: the baseline is taken from a first scan; the clock is
  read before that scan.
\<close>

definition client_wait_for_reply ::
  "env \<Rightarrow> nat \<Rightarrow> nat \<Rightarrow> string option \<Rightarrow> session \<Rightarrow> (py_exn + string option) \<times> session" where
  "client_wait_for_reply env timeout poll_interval ignore_text s =
     (let start_time = now s;
          baseline_messages = baseline_of (scan env start_time)
      in wait_loop env baseline_messages ignore_text start_time timeout poll_interval
           (s\<lparr>now := step env start_time\<rparr>))"

text \<open>\<open>WhatsAppClient.close\<close>: \<open>driver.quit()\<close> under \<open>except Exception\<close>.\<close>

definition client_close :: "env \<Rightarrow> session \<Rightarrow> (py_exn + unit) \<times> session" where
  "client_close env s =
     (let t = now s; s1 = s\<lparr>now := step env t\<rparr>
      in case quit env t of
           None \<Rightarrow> (Inr (), s1)
         | Some e \<Rightarrow> if is_Exception e then (Inr (), s1) else (Inl e, s1))"

subsection \<open>SeleniumProvider\<close>

text \<open>\<open>SeleniumProvider(headless)\<close>.\<close>

definition new_provider :: "bool \<Rightarrow> selenium_provider" where
  "new_provider h = \<lparr>headless = h, client = None, connected = False\<rparr>"

definition connect :: "env \<Rightarrow> session \<Rightarrow> (py_exn + bool) \<times> session" where
  "connect env s =
     (let t = now s; s1 = s\<lparr>now := step env t\<rparr>
      in case launch env t of
           None \<Rightarrow>
             (Inr True,
              s1\<lparr>provider := (provider s1)
                    \<lparr>client := Some \<lparr>driver = t, last_read_message_id = None\<rparr>\<rparr>\<rparr>)
         | Some e \<Rightarrow> if is_Exception e then (Inr False, s1) else (Inl e, s1))"

definition is_connected :: "session \<Rightarrow> bool" where
  "is_connected s = (connected (provider s) \<and> client (provider s) \<noteq> None)"

definition confirm_login :: "env \<Rightarrow> nat \<Rightarrow> session \<Rightarrow> (py_exn + bool) \<times> session" where
  "confirm_login env timeout s =
     (case client (provider s) of
        None \<Rightarrow> (Inr False, s)
      | Some cl \<Rightarrow>
          (case wait_for_login env timeout s of
             (Inl e, s1) \<Rightarrow> (Inl e, s1)
           | (Inr result, s1) \<Rightarrow>
               (Inr result, s1\<lparr>provider := (provider s1)\<lparr>connected := result\<rparr>\<rparr>)))"

definition send_message :: "env \<Rightarrow> string \<Rightarrow> string \<Rightarrow> session \<Rightarrow> (py_exn + bool) \<times> session" where
  "send_message env phone text s =
     (case client (provider s) of
        None \<Rightarrow> (Inr False, s)
      | Some cl \<Rightarrow>
          (case open_chat env phone s of
             (Inl e, s1) \<Rightarrow> (Inl e, s1)
           | (Inr False, s1) \<Rightarrow> (Inr False, s1)
           | (Inr True, s1) \<Rightarrow> client_send_message env text s1))"

definition wait_for_reply ::
  "env \<Rightarrow> string \<Rightarrow> nat \<Rightarrow> session \<Rightarrow> (py_exn + string option) \<times> session" where
  "wait_for_reply env phone timeout s =
     (case client (provider s) of
        None \<Rightarrow> (Inr None, s)
      | Some cl \<Rightarrow> client_wait_for_reply env timeout 3 None s)"

definition close :: "env \<Rightarrow> session \<Rightarrow> (py_exn + unit) \<times> session" where
  "close env s =
     (case client (provider s) of
        None \<Rightarrow> (Inr (), s)
      | Some cl \<Rightarrow>
          (case client_close env s of
             (Inl e, s1) \<Rightarrow>
               if is_Exception e
               then (Inr (), s1\<lparr>provider := (provider s1)\<lparr>client := None, connected := False\<rparr>\<rparr>)
               else (Inl e, s1)
           | (Inr u, s1) \<Rightarrow>
               (Inr (), s1\<lparr>provider := (provider s1)\<lparr>client := None, connected := False\<rparr>\<rparr>)))"

subsection \<open>APIProvider (stub)\<close>

record api_provider =
  wa_api_key :: string
  phone_number_id :: string
  wa_api_url :: string
  api_connected :: bool

text \<open>
  The three operations of the stub with their log lines (the two warnings that contain a
  dash outside Latin-1 are cut before it).
\<close>

definition api_connect :: "api_provider \<Rightarrow> (py_exn + bool) \<times> api_provider \<times> event list" where
  "api_connect p =
     (if wa_api_key p = [] \<or> phone_number_id p = [] then
        (Inr False, p, [LogError ''APIProvider: api_key and phone_number_id are required''])
      else
        (Inr True, p\<lparr>api_connected := True\<rparr>, [LogWarning ''APIProvider: connect() is a stub'']))"

definition api_send_message ::
  "api_provider \<Rightarrow> string \<Rightarrow> string \<Rightarrow> (py_exn + bool) \<times> event list" where
  "api_send_message p phone text =
     (if \<not> api_connected p then (Inr False, [LogError ''APIProvider: not connected''])
      else (Inr False, [LogWarning (''APIProvider: send_message() stub called for '' @ phone)]))"

definition api_wait_for_reply ::
  "api_provider \<Rightarrow> string \<Rightarrow> nat \<Rightarrow> (py_exn + string option) \<times> event list" where
  "api_wait_for_reply p phone timeout =
     (Inr None, [LogWarning ''APIProvider: wait_for_reply() stub''])"

definition api_close :: "api_provider \<Rightarrow> api_provider \<times> event list" where
  "api_close p = (p\<lparr>api_connected := False\<rparr>, [LogInfo ''APIProvider: closed''])"

subsection \<open>Programs over the provider interface\<close>

text \<open>
  A caller of the provider is a sequence of calls; running it gives the history of calls
  with what each returned or raised. A caller that catches an exception goes on with the
  state the raising call left behind.
\<close>

datatype call =
    Connect | ConfirmLogin nat | SendMessage string string | WaitForReply string nat | Close

datatype retval = RBool bool | RText "string option" | RUnit

definition returning :: "('a \<Rightarrow> retval) \<Rightarrow> (py_exn + 'a) \<times> session \<Rightarrow> (py_exn + retval) \<times> session" where
  "returning f r = (map_sum id f (fst r), snd r)"

fun exec_call :: "env \<Rightarrow> call \<Rightarrow> session \<Rightarrow> (py_exn + retval) \<times> session" where
  "exec_call env Connect s = returning RBool (connect env s)"
| "exec_call env (ConfirmLogin timeout) s = returning RBool (confirm_login env timeout s)"
| "exec_call env (SendMessage phone text) s = returning RBool (send_message env phone text s)"
| "exec_call env (WaitForReply phone timeout) s = returning RText (wait_for_reply env phone timeout s)"
| "exec_call env Close s = returning (\<lambda>u. RUnit) (close env s)"

fun run_calls :: "env \<Rightarrow> call list \<Rightarrow> session \<Rightarrow> (call \<times> (py_exn + retval)) list \<times> session" where
  "run_calls env [] s = ([], s)"
| "run_calls env (c # cs) s =
     (let (r, s1) = exec_call env c s; (h, s2) = run_calls env cs s1 in ((c, r) # h, s2))"

text \<open>
  A history in which some \<open>confirm_login\<close> returned \<open>True\<close> and no \<open>close\<close> returned after it.
\<close>

definition login_confirmed :: "(call \<times> (py_exn + retval)) list \<Rightarrow> bool" where
  "login_confirmed h =
     (\<exists>before timeout after.
        h = before @ (ConfirmLogin timeout, Inr (RBool True)) # after \<and>
        (Close, Inr RUnit) \<notin> set after)"

text \<open>
  The messages that \<open>wait_for_reply\<close> is specified to return: incoming, with an identity
  token outside the baseline, with a non-empty extracted text other than the text to ignore.
\<close>

definition new_reply :: "string set \<Rightarrow> string option \<Rightarrow> message \<Rightarrow> string \<Rightarrow> bool" where
  "new_reply baseline_messages ignore_text m text =
     (is_incoming m \<and> msg_id m \<notin> baseline_messages \<and>
      extract_text_from_message (element m) = Inr (Some text) \<and>
      text \<noteq> [] \<and> ignore_text \<noteq> Some text)"

text \<open>
  The messages that the loop of \<open>wait_for_reply\<close> walks past without an exception: outgoing
  ones, those of the baseline, and those whose extracted text is missing, empty or the text
  to ignore.
\<close>

definition passes_over :: "string set \<Rightarrow> string option \<Rightarrow> message \<Rightarrow> bool" where
  "passes_over baseline_messages ignore_text m =
     (\<not> is_incoming m \<or> msg_id m \<in> baseline_messages \<or>
      (case extract_text_from_message (element m) of
         Inl e \<Rightarrow> False
       | Inr None \<Rightarrow> True
       | Inr (Some text) \<Rightarrow> text = [] \<or> ignore_text = Some text))"

text \<open>
  The times of the polls of \<open>wait_for_reply\<close> that find nothing, counted from the first
  poll at time \<open>t\<close>: each poll is followed by a sleep of \<open>poll_interval\<close> seconds.
\<close>

fun poll_time :: "env \<Rightarrow> nat \<Rightarrow> nat \<Rightarrow> nat \<Rightarrow> nat" where
  "poll_time env poll_interval t 0 = t"
| "poll_time env poll_interval t (Suc k) =
     poll_time env poll_interval (step env t + poll_interval) k"

subsection \<open>A concrete chat surface\<close>

text \<open>
  A message element whose first selector finds one text, and a quiet surface: the browser
  starts, the search box appears, the page shows no warning, chats open, texts are typed,
  no message is visible, nothing takes longer than a second and the operator stays away.
\<close>

definition bubble :: "string \<Rightarrow> element" where
  "bubble text = \<lparr>find_texts = (\<lambda>selector. Inr [text]), full_text = Inr text\<rparr>"

definition quiet :: env where
  "quiet = \<lparr>launch = (\<lambda>t. None), ready = (\<lambda>t timeout. None),
            page_source = (\<lambda>t. Inr ''<html><body>WhatsApp</body></html>''),
            navigate = (\<lambda>t phone. Inr True), typing = (\<lambda>t text. Inr True),
            scan = (\<lambda>t. []), quit = (\<lambda>t. None), latency = (\<lambda>t. 0),
            ctrl_c = (\<lambda>t. False), random = (\<lambda>t. 0)\<rparr>"

definition fresh :: session where
  "fresh = \<lparr>now = 0, provider = new_provider False, outbox = []\<rparr>"

text \<open>The flag \<open>_connected\<close> is set only while a client exists.\<close>

definition provider_inv :: "session \<Rightarrow> bool" where
  "provider_inv s = (connected (provider s) \<longrightarrow> client (provider s) \<noteq> None)"

text \<open>A session after a confirmed login.\<close>

definition logged_in :: session where
  "logged_in = \<lparr>now = 7,
                provider = \<lparr>headless = False,
                            client = Some \<lparr>driver = 0, last_read_message_id = None\<rparr>,
                            connected = True\<rparr>,
                outbox = []\<rparr>"

text \<open>
  A conversation: an old incoming message is visible from the start; after the first second
  the request just sent and a new incoming answer are visible as well.
\<close>

definition chat :: env where
  "chat = quiet\<lparr>scan := (\<lambda>t.
     if t = 0 then
       [\<lparr>element = bubble ''Hi'', is_incoming = True, msg_id = ''true_1''\<rparr>]
     else
       [\<lparr>element = bubble ''Hi'', is_incoming = True, msg_id = ''true_1''\<rparr>,
        \<lparr>element = bubble ''Would you mind sharing a quick review?'', is_incoming = False,
         msg_id = ''false_2''\<rparr>,
        \<lparr>element = bubble ''Loved it, thanks!'', is_incoming = True, msg_id = ''true_3''\<rparr>])\<rparr>"

text \<open>
  A conversation in which the answer becomes visible four seconds in, followed by a newer
  outgoing message and a newer incoming element without text.
\<close>

definition thread :: env where
  "thread = quiet\<lparr>scan := (\<lambda>t.
     if t < 4 then
       [\<lparr>element = bubble ''Hi'', is_incoming = True, msg_id = ''true_1''\<rparr>]
     else
       [\<lparr>element = bubble ''Hi'', is_incoming = True, msg_id = ''true_1''\<rparr>,
        \<lparr>element = bubble ''Loved it, thanks!'', is_incoming = True, msg_id = ''true_3''\<rparr>,
        \<lparr>element = bubble ''Thank you for your feedback'', is_incoming = False,
         msg_id = ''false_4''\<rparr>,
        \<lparr>element = bubble [], is_incoming = True, msg_id = ''true_5''\<rparr>])\<rparr>"

section \<open>Campaign runner (run\_campaign.py) and persistence (database.py)\<close>

text \<open>The three message templates, rendered by \<open>str.format\<close>.\<close>

definition REVIEW_REQUEST :: "string \<Rightarrow> string \<Rightarrow> string" where
  "REVIEW_REQUEST name product =
     ''Hi '' @ name @ '', we noticed you recently purchased '' @ product @
     ''. We hope you'' @ [CHR 0x27] @ ''re satisfied! Would you mind sharing a quick review '' @
     ''about your experience?''"

definition GOOGLE_LINK_MSG :: "string \<Rightarrow> string \<Rightarrow> string" where
  "GOOGLE_LINK_MSG name link =
     ''Thank you so much for your kind words, '' @ name @
     ''! We really appreciate it. If you have a moment, we would be grateful if you could '' @
     ''share your experience on Google: '' @ link"

definition THANK_YOU_MSG :: "string \<Rightarrow> string" where
  "THANK_YOU_MSG name =
     ''Thank you for your feedback, '' @ name @
     ''. We appreciate you taking the time to share your thoughts with us.''"

text \<open>
  \<open>random_delay\<close>: a random number of seconds between the bounds, slept unless the operator
  interrupts.
\<close>

definition random_delay :: "env \<Rightarrow> nat \<Rightarrow> nat \<Rightarrow> session \<Rightarrow> (py_exn + unit) \<times> session" where
  "random_delay env min_s max_s s =
     (let delay = min_s + random env (now s) mod (max_s - min_s + 1)
      in if ctrl_c env (now s) then (Inl (Exn KeyboardInterrupt []), s)
         else (Inr (), s\<lparr>now := now s + delay\<rparr>))"

text \<open>The row of the table \<open>customers\<close>, as the dataclass \<open>Customer\<close>.\<close>

record customer =
  customer_id :: int
  user_id :: int
  name :: string
  phone :: string
  product :: string
  has_review :: bool
  status :: string
  sentiment :: string
  last_message :: string
  created_at :: string

text \<open>
  \<open>update_customer\<close> runs \<open>UPDATE customers SET ... WHERE id = ?\<close>: the assignments, given as
  a function on rows, are applied to the rows with that id. The four operations on the
  table that the campaign uses; statements are taken to succeed.
\<close>

definition update_customer :: "int \<Rightarrow> (customer \<Rightarrow> customer) \<Rightarrow> customer list \<Rightarrow> customer list" where
  "update_customer cid updates rows =
     map (\<lambda>row. if customer_id row = cid then updates row else row) rows"

definition mark_done :: "int \<Rightarrow> string \<Rightarrow> string \<Rightarrow> customer list \<Rightarrow> customer list" where
  "mark_done cid sent last_msg =
     update_customer cid
       (\<lambda>row. row\<lparr>status := ''done'', has_review := True, sentiment := sent,
                  last_message := take 200 last_msg\<rparr>)"

definition mark_no_reply :: "int \<Rightarrow> customer list \<Rightarrow> customer list" where
  "mark_no_reply cid = update_customer cid (\<lambda>row. row\<lparr>status := ''no_reply''\<rparr>)"

definition mark_error :: "int \<Rightarrow> string \<Rightarrow> customer list \<Rightarrow> customer list" where
  "mark_error cid error =
     update_customer cid
       (\<lambda>row. row\<lparr>status := ''error'', last_message := take 200 (''Error: '' @ error)\<rparr>)"

definition get_pending_customers :: "customer list \<Rightarrow> customer list" where
  "get_pending_customers rows =
     sort_key customer_id (filter (\<lambda>row. status row = ''pending'') rows)"

text \<open>
  The state of a campaign run: the automation session and the table. Console output and
  log lines of the runner are not part of the model.
\<close>

record campaign =
  session :: session
  db :: "customer list"

text \<open>
  The block that both branches of the loop body share: classify the text, choose the
  answer, send it, and mark the customer done or, when the send fails, in error with the
  text given. The first component is the exception raised, if any.
\<close>

definition answer_review ::
  "env \<Rightarrow> sentiment_service \<Rightarrow> (string \<Rightarrow> http_result) \<Rightarrow> string \<Rightarrow> customer \<Rightarrow> string
     \<Rightarrow> string \<Rightarrow> campaign \<Rightarrow> py_exn option \<times> campaign" where
  "answer_review env svc llm google_link cust msg failure st =
     (case fst (classify svc llm msg) of
        Inl e \<Rightarrow> (Some e, st)
      | Inr llm_sentiment \<Rightarrow>
          (let sent = sentiment_value llm_sentiment;
               text = (if sent = ''Positive'' then GOOGLE_LINK_MSG (name cust) google_link
                       else THANK_YOU_MSG (name cust))
           in case send_message env (phone cust) text (session st) of
                (Inl e, s1) \<Rightarrow> (Some e, st\<lparr>session := s1\<rparr>)
              | (Inr True, s1) \<Rightarrow>
                  (None, \<lparr>session = s1,
                          db = mark_done (customer_id cust) sent (take 100 text) (db st)\<rparr>)
              | (Inr False, s1) \<Rightarrow>
                  (None, \<lparr>session = s1, db = mark_error (customer_id cust) failure (db st)\<rparr>)))"

text \<open>The branch for a customer who already has a review: read, then answer.\<close>

definition existing_review ::
  "env \<Rightarrow> sentiment_service \<Rightarrow> (string \<Rightarrow> http_result) \<Rightarrow> string \<Rightarrow> customer
     \<Rightarrow> campaign \<Rightarrow> py_exn option \<times> campaign" where
  "existing_review env svc llm google_link cust st =
     (case (case client (provider (session st)) of
              None \<Rightarrow> (Inr None, session st)
            | Some raw_client \<Rightarrow> read_latest_incoming_message env (session st)) of
        (Inl e, s1) \<Rightarrow> (Some e, st\<lparr>session := s1\<rparr>)
      | (Inr None, s1) \<Rightarrow> (None, st\<lparr>session := s1\<rparr>)
      | (Inr (Some msg), s1) \<Rightarrow>
          if msg = [] then (None, st\<lparr>session := s1\<rparr>)
          else answer_review env svc llm google_link cust msg ''Failed to send message''
                 (st\<lparr>session := s1\<rparr>))"

text \<open>The branch for a new customer: request, wait up to 300 seconds, then answer.\<close>

definition request_review ::
  "env \<Rightarrow> sentiment_service \<Rightarrow> (string \<Rightarrow> http_result) \<Rightarrow> string \<Rightarrow> customer
     \<Rightarrow> campaign \<Rightarrow> py_exn option \<times> campaign" where
  "request_review env svc llm google_link cust st =
     (let product_name = (if product cust \<noteq> [] then product cust else ''your recent purchase'');
          text = REVIEW_REQUEST (name cust) product_name
      in case send_message env (phone cust) text (session st) of
           (Inl e, s1) \<Rightarrow> (Some e, st\<lparr>session := s1\<rparr>)
         | (Inr False, s1) \<Rightarrow>
             (None, \<lparr>session = s1,
                     db = mark_error (customer_id cust) ''Failed to send request'' (db st)\<rparr>)
         | (Inr True, s1) \<Rightarrow>
             (case wait_for_reply env (phone cust) 300 s1 of
                (Inl e, s2) \<Rightarrow> (Some e, st\<lparr>session := s2\<rparr>)
              | (Inr None, s2) \<Rightarrow>
                  (None, \<lparr>session = s2, db = mark_no_reply (customer_id cust) (db st)\<rparr>)
              | (Inr (Some reply), s2) \<Rightarrow>
                  if reply = [] then
                    (None, \<lparr>session = s2, db = mark_no_reply (customer_id cust) (db st)\<rparr>)
                  else answer_review env svc llm google_link cust reply
                         ''Failed to send response'' (st\<lparr>session := s2\<rparr>)))"

text \<open>
  The body of the \<open>try\<close> block for one customer: one of the two branches, then the delay
  unless the customer equals the last pending one.
\<close>

definition process_customer ::
  "env \<Rightarrow> sentiment_service \<Rightarrow> (string \<Rightarrow> http_result) \<Rightarrow> string \<Rightarrow> customer list
     \<Rightarrow> customer \<Rightarrow> campaign \<Rightarrow> py_exn option \<times> campaign" where
  "process_customer env svc llm google_link pending cust st =
     (case (if has_review cust then existing_review env svc llm google_link cust st
            else request_review env svc llm google_link cust st) of
        (Some e, st1) \<Rightarrow> (Some e, st1)
      | (None, st1) \<Rightarrow>
          if cust \<noteq> last pending then
            (case random_delay env 40 90 (session st1) of
               (Inl e, s2) \<Rightarrow> (Some e, st1\<lparr>session := s2\<rparr>)
             | (Inr u, s2) \<Rightarrow> (None, st1\<lparr>session := s2\<rparr>))
          else (None, st1))"

text \<open>
  One iteration of the loop with its two handlers: \<open>KeyboardInterrupt\<close> leaves the loop, any
  \<open>Exception\<close> marks the customer in error with the first 100 characters of its text and the
  loop goes on; anything else leaves \<open>run_campaign\<close>.
\<close>

datatype control = Continue | Break | Propagate py_exn

definition campaign_step ::
  "env \<Rightarrow> sentiment_service \<Rightarrow> (string \<Rightarrow> http_result) \<Rightarrow> string \<Rightarrow> customer list
     \<Rightarrow> customer \<Rightarrow> campaign \<Rightarrow> control \<times> campaign" where
  "campaign_step env svc llm google_link pending cust st =
     (case process_customer env svc llm google_link pending cust st of
        (None, st1) \<Rightarrow> (Continue, st1)
      | (Some e, st1) \<Rightarrow>
          if exn_class e = KeyboardInterrupt then (Break, st1)
          else if is_Exception e then
            (Continue,
             st1\<lparr>db := mark_error (customer_id cust) (take 100 (exn_str e)) (db st1)\<rparr>)
          else (Propagate e, st1))"

fun campaign_loop ::
  "env \<Rightarrow> sentiment_service \<Rightarrow> (string \<Rightarrow> http_result) \<Rightarrow> string \<Rightarrow> customer list
     \<Rightarrow> customer list \<Rightarrow> campaign \<Rightarrow> py_exn option \<times> campaign" where
  "campaign_loop env svc llm google_link pending [] st = (None, st)"
| "campaign_loop env svc llm google_link pending (cust # rest) st =
     (case campaign_step env svc llm google_link pending cust st of
        (Continue, st1) \<Rightarrow> campaign_loop env svc llm google_link pending rest st1
      | (Break, st1) \<Rightarrow> (None, st1)
      | (Propagate e, st1) \<Rightarrow> (Some e, st1))"

text \<open>
  \<open>run_campaign\<close>: the pending customers, a new provider, connect, the prompt (which the
  operator may interrupt), the login check, the loop and the final \<open>close\<close>. The first
  component is the exception that leaves the function, if any.
\<close>

definition run_campaign ::
  "env \<Rightarrow> sentiment_service \<Rightarrow> (string \<Rightarrow> http_result) \<Rightarrow> string \<Rightarrow> campaign
     \<Rightarrow> py_exn option \<times> campaign" where
  "run_campaign env svc llm google_link st =
     (let pending = get_pending_customers (db st)
      in if pending = [] then (None, st)
         else
           (case connect env ((session st)\<lparr>provider := new_provider False\<rparr>) of
              (Inl e, s1) \<Rightarrow> (Some e, st\<lparr>session := s1\<rparr>)
            | (Inr False, s1) \<Rightarrow> (None, st\<lparr>session := s1\<rparr>)
            | (Inr True, s1) \<Rightarrow>
                if ctrl_c env (now s1) then
                  (case close env s1 of
                     (Inl e, s2) \<Rightarrow> (Some e, st\<lparr>session := s2\<rparr>)
                   | (Inr u, s2) \<Rightarrow> (None, st\<lparr>session := s2\<rparr>))
                else
                  (case confirm_login env 30 (s1\<lparr>now := step env (now s1)\<rparr>) of
                     (Inl e, s2) \<Rightarrow> (Some e, st\<lparr>session := s2\<rparr>)
                   | (Inr False, s2) \<Rightarrow>
                       (case close env s2 of
                          (Inl e, s3) \<Rightarrow> (Some e, st\<lparr>session := s3\<rparr>)
                        | (Inr u, s3) \<Rightarrow> (None, st\<lparr>session := s3\<rparr>))
                   | (Inr True, s2) \<Rightarrow>
                       (case campaign_loop env svc llm google_link pending pending
                               (st\<lparr>session := s2\<rparr>) of
                          (Some e, st3) \<Rightarrow> (Some e, st3)
                        | (None, st3) \<Rightarrow>
                            (case close env (session st3) of
                               (Inl e, s4) \<Rightarrow> (Some e, st3\<lparr>session := s4\<rparr>)
                             | (Inr u, s4) \<Rightarrow> (None, st3\<lparr>session := s4\<rparr>))))))"

text \<open>The fields of a row that identify the customer.\<close>

definition identity_fields :: "customer \<Rightarrow> int \<times> int \<times> string \<times> string \<times> string \<times> string" where
  "identity_fields row =
     (customer_id row, user_id row, name row, phone row, product row, created_at row)"

subsection \<open>Two concrete runs\<close>

text \<open>
  The customer of the end-to-end scenarios and a second one; a surface on which the answer
  becomes visible twenty seconds into the run; the same surface showing a warning when the
  first chat is opened (three seconds into the run).
\<close>

definition ayesha :: customer where
  "ayesha = \<lparr>customer_id = 1, user_id = 1, name = ''Ayesha'', phone = ''923001234567'',
             product = ''Blender'', has_review = False, status = ''pending'', sentiment = [],
             last_message = [], created_at = ''2024-01-01 10:00:00''\<rparr>"

definition bilal :: customer where
  "bilal = \<lparr>customer_id = 2, user_id = 1, name = ''Bilal'', phone = ''923017654321'',
            product = ''Kettle'', has_review = False, status = ''pending'', sentiment = [],
            last_message = [], created_at = ''2024-01-02 09:30:00''\<rparr>"

definition answering :: env where
  "answering = quiet\<lparr>scan := (\<lambda>t.
     if t < 20 then
       [\<lparr>element = bubble ''Hi'', is_incoming = True, msg_id = ''true_1''\<rparr>]
     else
       [\<lparr>element = bubble ''Hi'', is_incoming = True, msg_id = ''true_1''\<rparr>,
        \<lparr>element = bubble ''Loved it, thanks!'', is_incoming = True, msg_id = ''true_3''\<rparr>])\<rparr>"

definition warned :: env where
  "warned = answering\<lparr>page_source := (\<lambda>t.
     if t = 3 then Inr ''<html><body>Your account is temporarily banned</body></html>''
     else Inr ''<html><body>WhatsApp</body></html>'')\<rparr>"

definition start :: "customer list \<Rightarrow> campaign" where
  "start rows = \<lparr>session = fresh, db = rows\<rparr>"

text \<open>
  The relation between a row before and after a run that may touch the customers \<open>ids\<close>:
  the identifying fields are kept, and a row of another customer is not changed at all.
\<close>

definition only_audit_fields :: "int set \<Rightarrow> customer \<Rightarrow> customer \<Rightarrow> bool" where
  "only_audit_fields ids row row' =
     (identity_fields row' = identity_fields row \<and> (customer_id row \<notin> ids \<longrightarrow> row' = row))"

text \<open>A campaign state after the login, at a given time.\<close>

definition logged_in_at :: "nat \<Rightarrow> customer list \<Rightarrow> campaign" where
  "logged_in_at t rows = \<lparr>session = logged_in\<lparr>now := t\<rparr>, db = rows\<rparr>"

section \<open>Properties of the phone normalisation\<close>

lemma contains_sublist: "contains n h = sublist n h"
  by (induction h) (auto simp: sublist_Cons_right)

text \<open>
  Claim C4. Normalisation is claimed to strip every non-digit character, so that the result
  consists of digits only. The two examples of the specification evaluate as stated, but the
  substitution keeps every \<open>+\<close> and only one leading \<open>+\<close> is removed afterwards: a \<open>+\<close> that
  follows a digit survives, and the result is not made of digits only.
\<close>

theorem clean_phone_inner_plus:
  "clean_phone ''+92 300-1234567'' = ''923001234567'' \<and>
   clean_phone ''0092-300'' = ''92300'' \<and>
   clean_phone ''92+3001234567'' = ''92+3001234567'' \<and>
   \<not> list_all is_digit (clean_phone ''92+3001234567'')"
  by code_simp

section \<open>Properties of the sentiment service\<close>

lemma has_positive_iff:
  "has_positive text \<longleftrightarrow> (\<exists>kw \<in> set POSITIVE_KEYWORDS. sublist kw (lower text))"
  by (simp add: has_positive_def list_ex_iff contains_sublist)

lemma has_negative_iff:
  "has_negative text \<longleftrightarrow> (\<exists>kw \<in> set NEGATIVE_KEYWORDS. sublist kw (lower text))"
  by (simp add: has_negative_def list_ex_iff contains_sublist)

subsection \<open>Exceptions inside the remote tier\<close>

lemma py_get_exn: "py_get d k dflt = Inl e \<Longrightarrow> exn_class e = AttributeError"
  by (cases d) auto

lemma py_strip_exn: "py_strip d = Inl e \<Longrightarrow> exn_class e = AttributeError"
  by (cases d) auto

lemma py_index0_exn:
  "py_index0 d = Inl e \<Longrightarrow> exn_class e \<in> {KeyError, IndexError, TypeError}"
  by (induction d rule: py_index0.induct) auto

lemma extract_response_content_exn:
  "extract_response_content data = Inl e \<Longrightarrow> exn_class e = AttributeError"
  by (auto simp: extract_response_content_def extract_body_def
           split: sum.splits if_splits dest: py_get_exn py_strip_exn py_index0_exn)

lemma parse_sentiment_label_exn:
  "parse_sentiment_label content = (Inl e, evs) \<Longrightarrow> exn_class e = IndexError"
  by (auto simp: parse_sentiment_label_def Let_def split: if_splits list.splits option.splits)

lemma class_is_Exception:
  "exn_class e \<in> {AttributeError, IndexError} \<Longrightarrow>
     is_Exception e \<and> \<not> is_Timeout e \<and> \<not> is_RequestException e"
  by (cases e) auto

lemma llm_try_body_exn:
  "raises_only_Exceptions res \<Longrightarrow> llm_try_body res = (Inl e, evs) \<Longrightarrow> is_Exception e"
  by (cases res)
     (auto simp: llm_try_body_def split: option.splits sum.splits
           dest!: extract_response_content_exn parse_sentiment_label_exn
           intro: class_is_Exception [THEN conjunct1])

lemma classify_with_llm_returns:
  assumes "raises_only_Exceptions (llm (render_prompt text))"
  shows "\<exists>r. fst (classify_with_llm svc llm text) = Inr r"
proof (cases "llm_try_body (llm (render_prompt text))")
  case (Pair r evs)
  show ?thesis
  proof (cases r)
    case (Inl e)
    with Pair assms have "is_Exception e" by (auto dest: llm_try_body_exn)
    with Pair Inl show ?thesis by (simp add: classify_with_llm_def Let_def)
  next
    case (Inr v)
    with Pair show ?thesis by (simp add: classify_with_llm_def Let_def)
  qed
qed

lemma llm_try_body_failed:
  "remote_failed res \<Longrightarrow> \<exists>e evs. llm_try_body res = (Inl e, evs)"
proof (cases res)
  case (PostRaises e)
  then show ?thesis by (simp add: llm_try_body_def)
next
  case (PostResponse status body)
  assume f: "remote_failed res"
  show ?thesis
  proof (cases status)
    case (Some e)
    with PostResponse show ?thesis by (simp add: llm_try_body_def)
  next
    case None
    show ?thesis
    proof (cases body)
      case (Inl e)
      with None PostResponse show ?thesis by (simp add: llm_try_body_def)
    next
      case (Inr data)
      with f None PostResponse have "\<nexists>kvs. data = JObj kvs" by (cases data) auto
      then have "\<exists>e. extract_response_content data = Inl e"
        by (cases data) (auto simp: extract_response_content_def extract_body_def)
      with Inr None PostResponse show ?thesis by (auto simp: llm_try_body_def)
    qed
  qed
qed

lemma classify_with_llm_failed:
  assumes "raises_only_Exceptions (llm (render_prompt text))"
      and "remote_failed (llm (render_prompt text))"
  shows "fst (classify_with_llm svc llm text) = Inr None"
proof -
  from assms(2) obtain e evs where b: "llm_try_body (llm (render_prompt text)) = (Inl e, evs)"
    using llm_try_body_failed by blast
  with assms(1) have "is_Exception e" by (rule llm_try_body_exn)
  with b show ?thesis by (simp add: classify_with_llm_def Let_def)
qed

text \<open>
  Claim C3. For every text and every configuration, \<open>classify\<close> returns one of the three
  labels and does not raise, whatever the remote call does, as long as what the remote call
  raises is an \<open>Exception\<close>; and when the remote call fails (timeout, network error, error
  status, undecodable or non-object body) the label is the one of the short-text rule or of
  the keyword heuristics.
\<close>

theorem classify_always_labels:
  assumes "raises_only_Exceptions (llm (render_prompt text))"
  shows "(\<exists>s. fst (classify svc llm text) = Inr s \<and> s \<in> {POSITIVE, NEUTRAL, NEGATIVE}) \<and>
         (remote_failed (llm (render_prompt text)) \<longrightarrow>
            fst (classify svc llm text) =
              Inr (if text = [] \<or> length (strip text) < 3 then NEUTRAL
                   else fst (classify_with_heuristics text)))"
proof -
  obtain r where r: "fst (classify_with_llm svc llm text) = Inr r"
    using classify_with_llm_returns [of llm "text" svc] assms by blast
  have all: "\<And>s::sentiment. s \<in> {POSITIVE, NEUTRAL, NEGATIVE}"
    by (metis insertCI sentiment.exhaust)
  have "\<exists>s. fst (classify svc llm text) = Inr s"
    using r by (cases "classify_with_llm svc llm text"; cases r)
               (auto simp: classify_def split: prod.splits)
  moreover have "fst (classify svc llm text) =
              Inr (if text = [] \<or> length (strip text) < 3 then NEUTRAL
                   else fst (classify_with_heuristics text))"
    if "remote_failed (llm (render_prompt text))"
    using classify_with_llm_failed [of llm "text" svc] assms that
    by (cases "classify_with_llm svc llm text") (auto simp: classify_def split: prod.splits)
  ultimately show ?thesis using all by blast
qed

theorem classify_always_labels_witness:
  "fst (classify svc1 (\<lambda>p. PostRaises (Exn RequestsTimeout ''timed out''))
          ''Terrible, I want a refund'') = Inr NEGATIVE \<and>
   fst (classify svc1 (\<lambda>p. PostResponse None (Inr (JArr []))) ''I love it'') = Inr POSITIVE"
proof -
  have a: "raises_only_Exceptions
             ((\<lambda>p. PostRaises (Exn RequestsTimeout ''timed out''))
                (render_prompt ''Terrible, I want a refund''))"
    by simp
  have b: "raises_only_Exceptions
             ((\<lambda>p. PostResponse None (Inr (JArr []))) (render_prompt ''I love it''))"
    by simp
  have h1: "fst (classify_with_heuristics ''Terrible, I want a refund'') = NEGATIVE"
    by code_simp
  have h2: "fst (classify_with_heuristics ''I love it'') = POSITIVE" by code_simp
  have l1: "\<not> length (strip ''Terrible, I want a refund'') < 3" by code_simp
  have l2: "\<not> length (strip ''I love it'') < 3" by code_simp
  show ?thesis
    using classify_always_labels [of "\<lambda>p. PostRaises (Exn RequestsTimeout ''timed out'')"
            "''Terrible, I want a refund''" svc1]
          classify_always_labels [of "\<lambda>p. PostResponse None (Inr (JArr []))" "''I love it''" svc1]
          a b h1 h2 l1 l2
    by simp
qed

text \<open>
  Claim C5. In a configuration without credential, a text of trimmed length at least 3 is
  labelled by the keywords alone: Positive when its lower-case form contains a positive keyword
  and no negative one, Negative when it contains a negative keyword and no positive one, and
  Neutral when it contains both kinds or neither.
\<close>

theorem heuristic_fallback:
  assumes "api_key svc = []" and "3 \<le> length (strip text)"
  shows "((\<exists>kw \<in> set POSITIVE_KEYWORDS. sublist kw (lower text)) \<and>
          \<not> (\<exists>kw \<in> set NEGATIVE_KEYWORDS. sublist kw (lower text))
            \<longrightarrow> fst (classify svc llm text) = Inr POSITIVE) \<and>
         ((\<exists>kw \<in> set NEGATIVE_KEYWORDS. sublist kw (lower text)) \<and>
          \<not> (\<exists>kw \<in> set POSITIVE_KEYWORDS. sublist kw (lower text))
            \<longrightarrow> fst (classify svc llm text) = Inr NEGATIVE) \<and>
         (((\<exists>kw \<in> set POSITIVE_KEYWORDS. sublist kw (lower text)) \<longleftrightarrow>
           (\<exists>kw \<in> set NEGATIVE_KEYWORDS. sublist kw (lower text)))
            \<longrightarrow> fst (classify svc llm text) = Inr NEUTRAL)"
proof -
  from assms(2) have ne: "text \<noteq> []" by (auto simp: strip_def)
  with assms have c: "classify svc llm text =
      (let (s, evs) = classify_with_heuristics text in (Inr s, evs))"
    by (simp add: classify_def)
  show ?thesis
    unfolding c has_positive_iff [symmetric] has_negative_iff [symmetric]
    by (auto simp: classify_with_heuristics_def)
qed

lemma example_positive:
  "has_positive ''This is the best product, thank you!'' \<and>
   \<not> has_negative ''This is the best product, thank you!'' \<and>
   3 \<le> length (strip ''This is the best product, thank you!'')"
  by code_simp

lemma example_negative:
  "has_negative ''Terrible, I want a refund'' \<and>
   \<not> has_positive ''Terrible, I want a refund'' \<and>
   3 \<le> length (strip ''Terrible, I want a refund'')"
  by code_simp

theorem heuristic_fallback_witness:
  "fst (classify svc0 (\<lambda>p. PostRaises (Exn RequestsTimeout []))
          ''This is the best product, thank you!'') = Inr POSITIVE \<and>
   fst (classify svc0 (\<lambda>p. PostRaises (Exn RequestsTimeout []))
          ''Terrible, I want a refund'') = Inr NEGATIVE"
proof -
  have k: "api_key svc0 = []" by (simp add: svc0_def)
  show ?thesis
    using heuristic_fallback [of svc0 "''This is the best product, thank you!''"
            "\<lambda>p. PostRaises (Exn RequestsTimeout [])"]
          heuristic_fallback [of svc0 "''Terrible, I want a refund''"
            "\<lambda>p. PostRaises (Exn RequestsTimeout [])"]
          k example_positive example_negative
    unfolding has_positive_iff has_negative_iff
    by blast
qed

subsection \<open>The short-text rule\<close>

lemma short_log_not_heuristic:
  "LogDebug ''Text too short, defaulting to Neutral'' \<notin> set (snd (classify_with_heuristics text))"
  by (simp add: classify_with_heuristics_def)

lemma short_log_not_parse:
  "LogDebug ''Text too short, defaulting to Neutral'' \<notin> set (snd (parse_sentiment_label c))"
  by (auto simp: parse_sentiment_label_def Let_def split: list.splits option.splits)

lemma short_log_not_try:
  "LogDebug ''Text too short, defaulting to Neutral'' \<notin> set (snd (llm_try_body res))"
  using short_log_not_parse
  by (auto simp: llm_try_body_def split: http_result.splits option.splits sum.splits)

lemma short_log_not_llm:
  "LogDebug ''Text too short, defaulting to Neutral'' \<notin> set (snd (classify_with_llm svc llm text))"
  using short_log_not_try [of "llm (render_prompt text)"]
  by (auto simp: classify_with_llm_def Let_def split: prod.splits sum.splits)

lemma posted_in_llm:
  "HttpPost (api_url svc) (render_prompt text) \<in> set (snd (classify_with_llm svc llm text))"
  by (auto simp: classify_with_llm_def Let_def split: prod.splits sum.splits)

text \<open>
  Claim C6. A text whose trimmed length is below 3 (the empty text included) is labelled
  Neutral and the only effect is the debug line of the short-text rule: no request is posted
  and the keyword heuristics do not run. A text of trimmed length exactly 3 does not take
  the short-text rule: with a credential the request is posted, without one the result is that
  of the keyword heuristics.
\<close>

theorem short_text_boundary:
  "(length (strip text) < 3 \<longrightarrow>
      classify svc llm text = (Inr NEUTRAL, [LogDebug ''Text too short, defaulting to Neutral''])) \<and>
   (length (strip text) = 3 \<longrightarrow>
      LogDebug ''Text too short, defaulting to Neutral'' \<notin> set (snd (classify svc llm text)) \<and>
      (api_key svc \<noteq> [] \<longrightarrow>
         HttpPost (api_url svc) (render_prompt text) \<in> set (snd (classify svc llm text))) \<and>
      (api_key svc = [] \<longrightarrow>
         classify svc llm text =
           (Inr (fst (classify_with_heuristics text)), snd (classify_with_heuristics text))))"
proof -
  have ne: "text \<noteq> []" if "length (strip text) = 3" using that by (auto simp: strip_def)
  have a: "length (strip text) < 3 \<Longrightarrow>
      classify svc llm text = (Inr NEUTRAL, [LogDebug ''Text too short, defaulting to Neutral''])"
    by (simp add: classify_def)
  have b: "LogDebug ''Text too short, defaulting to Neutral'' \<notin> set (snd (classify svc llm text))"
    if "length (strip text) = 3"
    using that ne short_log_not_llm [of svc llm "text"] short_log_not_heuristic [of "text"]
    by (auto simp: classify_def split: prod.splits sum.splits option.splits)
  have c: "HttpPost (api_url svc) (render_prompt text) \<in> set (snd (classify svc llm text))"
    if "length (strip text) = 3" "api_key svc \<noteq> []"
    using that ne posted_in_llm [of svc "text" llm]
    by (auto simp: classify_def split: prod.splits sum.splits option.splits)
  have d: "classify svc llm text =
           (Inr (fst (classify_with_heuristics text)), snd (classify_with_heuristics text))"
    if "length (strip text) = 3" "api_key svc = []"
    using that ne by (simp add: classify_def split: prod.splits)
  show ?thesis using a b c d by blast
qed

theorem short_text_boundary_witness:
  "classify svc1 (\<lambda>p. PostRaises (Exn RequestsTimeout [])) ''ok'' =
     (Inr NEUTRAL, [LogDebug ''Text too short, defaulting to Neutral'']) \<and>
   classify svc0 (\<lambda>p. PostRaises (Exn RequestsTimeout [])) '' bad '' =
     (Inr NEGATIVE, [LogDebug ''Heuristic: Negative (keywords found)''])"
proof -
  have l1: "length (strip ''ok'') < 3" by code_simp
  have l2: "length (strip '' bad '') = 3" by code_simp
  have k: "api_key svc0 = []" by (simp add: svc0_def)
  have h: "classify_with_heuristics '' bad '' =
     (NEGATIVE, [LogDebug ''Heuristic: Negative (keywords found)''])" by code_simp
  show ?thesis
    using short_text_boundary [of "''ok''" svc1 "\<lambda>p. PostRaises (Exn RequestsTimeout [])"]
      short_text_boundary [of "'' bad ''" svc0 "\<lambda>p. PostRaises (Exn RequestsTimeout [])"]
      l1 l2 k h
    by simp
qed

section \<open>Properties of the providers\<close>

text \<open>
  Claim C7, as stated: on the stub provider \<open>send_message\<close> and \<open>wait_for_reply\<close> fail with an
  explicit error instead of the negative results. On a connected stub they return \<open>False\<close>
  and \<open>None\<close>.
\<close>

theorem api_stub_counterexample:
  "api_send_message
     \<lparr>wa_api_key = ''EAAxxxxxxx'', phone_number_id = ''1234567890'',
      wa_api_url = ''https://graph.facebook.com/v18.0'', api_connected = True\<rparr>
     ''923001234567'' ''Hello!''
   = (Inr False, [LogWarning ''APIProvider: send_message() stub called for 923001234567'']) \<and>
   api_wait_for_reply
     \<lparr>wa_api_key = ''EAAxxxxxxx'', phone_number_id = ''1234567890'',
      wa_api_url = ''https://graph.facebook.com/v18.0'', api_connected = True\<rparr>
     ''923001234567'' 180
   = (Inr None, [LogWarning ''APIProvider: wait_for_reply() stub''])"
  by (simp add: api_send_message_def api_wait_for_reply_def)

text \<open>
  Claim C7, amended: for every stub provider, phone, text and timeout, \<open>send_message\<close>
  returns \<open>False\<close> and \<open>wait_for_reply\<close> returns \<open>None\<close>, neither raises, and each call logs one
  line: a warning that the stub was called, or the error that the provider is not connected.
\<close>

theorem api_stub_negative_results:
  "api_send_message p ph msg =
     (Inr False,
      [if api_connected p then LogWarning (''APIProvider: send_message() stub called for '' @ ph)
       else LogError ''APIProvider: not connected'']) \<and>
   api_wait_for_reply p ph timeout = (Inr None, [LogWarning ''APIProvider: wait_for_reply() stub''])"
  by (simp add: api_send_message_def api_wait_for_reply_def)

lemma client_close_returns:
  assumes "\<And>e. quit env (now s) = Some e \<Longrightarrow> is_Exception e"
  shows "client_close env s = (Inr (), s\<lparr>now := step env (now s)\<rparr>)"
  using assms by (auto simp: client_close_def Let_def split: option.splits)

text \<open>
  Claim C9. When \<open>driver.quit()\<close> raises nothing but instances of \<open>Exception\<close>, \<open>close\<close> on any
  session (connected, never connected or already closed) returns without error and leaves
  \<open>is_connected\<close> false, and a second \<open>close\<close> returns without error and changes nothing; the
  client's own \<open>close\<close> returns without error twice in a row as well.
\<close>

theorem close_idempotent:
  assumes "\<And>t e. quit env t = Some e \<Longrightarrow> is_Exception e"
  shows "(\<exists>s1. close env s = (Inr (), s1) \<and> \<not> is_connected s1 \<and>
               close env s1 = (Inr (), s1)) \<and>
         (\<exists>s1 s2. client_close env s = (Inr (), s1) \<and> client_close env s1 = (Inr (), s2))"
proof -
  have c: "client_close env s' = (Inr (), s'\<lparr>now := step env (now s')\<rparr>)" for s'
    using assms by (rule client_close_returns)
  have "\<exists>s1. close env s = (Inr (), s1) \<and> \<not> is_connected s1 \<and> close env s1 = (Inr (), s1)"
    by (cases "client (provider s)") (simp_all add: close_def c is_connected_def)
  moreover have "\<exists>s1 s2. client_close env s = (Inr (), s1) \<and> client_close env s1 = (Inr (), s2)"
    using c by blast
  ultimately show ?thesis by blast
qed


theorem close_idempotent_witness:
  "is_connected logged_in \<and>
   (\<exists>s1. close (quiet\<lparr>quit := \<lambda>t. Some (Exn WebDriverException ''invalid session id'')\<rparr>) logged_in
            = (Inr (), s1) \<and>
          \<not> is_connected s1 \<and>
          close (quiet\<lparr>quit := \<lambda>t. Some (Exn WebDriverException ''invalid session id'')\<rparr>) s1
            = (Inr (), s1))"
proof -
  have q: "\<And>t e. quit (quiet\<lparr>quit := \<lambda>t. Some (Exn WebDriverException ''invalid session id'')\<rparr>) t
                    = Some e \<Longrightarrow> is_Exception e"
    by auto
  have a: "is_connected logged_in" by (simp add: is_connected_def logged_in_def)
  have b: "\<exists>s1. close (quiet\<lparr>quit := \<lambda>t. Some (Exn WebDriverException ''invalid session id'')\<rparr>) logged_in
            = (Inr (), s1) \<and>
          \<not> is_connected s1 \<and>
          close (quiet\<lparr>quit := \<lambda>t. Some (Exn WebDriverException ''invalid session id'')\<rparr>) s1
            = (Inr (), s1)"
    by (rule conjunct1 [OF close_idempotent
            [of "quiet\<lparr>quit := \<lambda>t. Some (Exn WebDriverException ''invalid session id'')\<rparr>" logged_in,
             OF q]])
  from a b show ?thesis by (rule conjI)
qed

subsection \<open>The connection flag\<close>

lemma open_chat_provider [simp]: "provider (snd (open_chat env ph s)) = provider s"
  by (auto simp: open_chat_def Let_def split: sum.splits bool.splits)

lemma client_send_message_provider [simp]:
  "provider (snd (client_send_message env msg s)) = provider s"
  by (auto simp: client_send_message_def Let_def split: sum.splits)

lemma wait_loop_provider [simp]:
  "provider (snd (wait_loop env b ig st tmo poll s)) = provider s"
proof (induction env b ig st tmo poll s rule: wait_loop.induct)
  case (1 env b ig st tmo poll s)
  show ?case
    by (subst wait_loop.simps) (auto simp: 1 split: sum.splits option.splits)
qed

lemma client_wait_for_reply_provider [simp]:
  "provider (snd (client_wait_for_reply env tmo poll ig s)) = provider s"
  by (simp add: client_wait_for_reply_def Let_def)

lemma send_message_provider [simp]: "provider (snd (send_message env ph msg s)) = provider s"
proof (cases "open_chat env ph s")
  case (Pair r s1)
  then have "provider s1 = provider s" using open_chat_provider [of env ph s] by simp
  with Pair show ?thesis
    by (auto simp: send_message_def split: option.splits sum.splits bool.splits)
qed

lemma wait_for_reply_provider [simp]:
  "provider (snd (wait_for_reply env ph tmo s)) = provider s"
  by (simp add: wait_for_reply_def split: option.splits)


lemma connect_effect:
  "connected (provider (snd (connect env s))) = connected (provider s) \<and>
   (client (provider s) \<noteq> None \<longrightarrow> client (provider (snd (connect env s))) \<noteq> None)"
  by (auto simp: connect_def Let_def split: option.splits)

lemma confirm_login_effect:
  "client (provider (snd (confirm_login env tmo s))) = client (provider s) \<and>
   (connected (provider (snd (confirm_login env tmo s))) \<and> \<not> connected (provider s)
      \<longrightarrow> fst (confirm_login env tmo s) = Inr True \<and> client (provider s) \<noteq> None)"
  by (auto simp: confirm_login_def wait_for_login_def Let_def split: option.splits)

lemma close_effect:
  "(provider (snd (close env s)) = provider s \<and> (client (provider s) = None \<or> isl (fst (close env s)))) \<or>
   (client (provider (snd (close env s))) = None \<and> \<not> connected (provider (snd (close env s))))"
  by (auto simp: close_def client_close_def Let_def split: option.splits)

lemma close_returned:
  "fst (close env s) = Inr u \<Longrightarrow> client (provider (snd (close env s))) = None"
  by (auto simp: close_def client_close_def Let_def split: option.splits if_splits)

lemma exec_call_effect:
  assumes "provider_inv s"
  shows "provider_inv (snd (exec_call env c s)) \<and>
         (is_connected (snd (exec_call env c s)) \<and> \<not> is_connected s \<longrightarrow>
            (\<exists>tmo. c = ConfirmLogin tmo \<and> fst (exec_call env c s) = Inr (RBool True))) \<and>
         (c = Close \<and> fst (exec_call env c s) = Inr RUnit \<longrightarrow>
            \<not> is_connected (snd (exec_call env c s)))"
proof (cases c)
  case Connect
  with assms show ?thesis
    using connect_effect [of env s]
    by (auto simp: returning_def provider_inv_def is_connected_def)
next
  case (ConfirmLogin tmo)
  with assms show ?thesis
    using confirm_login_effect [of env tmo s]
    by (auto simp: returning_def provider_inv_def is_connected_def)
next
  case (SendMessage ph msg)
  with assms show ?thesis
    by (simp add: returning_def provider_inv_def is_connected_def)
next
  case (WaitForReply ph tmo)
  with assms show ?thesis
    by (simp add: returning_def provider_inv_def is_connected_def)
next
  case Close
  with assms show ?thesis
    using close_effect [of env s] close_returned [of env s]
    by (cases "fst (close env s)") (auto simp: returning_def provider_inv_def is_connected_def)
qed

lemma run_calls_connected:
  assumes "provider_inv s" and "is_connected (snd (run_calls env cs s))"
  shows "(is_connected s \<and> (Close, Inr RUnit) \<notin> set (fst (run_calls env cs s))) \<or>
         login_confirmed (fst (run_calls env cs s))"
  using assms
proof (induction cs arbitrary: s)
  case Nil
  then show ?case by simp
next
  case (Cons c cs)
  obtain r s1 where e: "exec_call env c s = (r, s1)" by (cases "exec_call env c s")
  obtain h s2 where r: "run_calls env cs s1 = (h, s2)" by (cases "run_calls env cs s1")
  from e r have all: "run_calls env (c # cs) s = ((c, r) # h, s2)" by simp
  have eff: "provider_inv s1 \<and>
      (is_connected s1 \<and> \<not> is_connected s \<longrightarrow> (\<exists>tmo. c = ConfirmLogin tmo \<and> r = Inr (RBool True))) \<and>
      (c = Close \<and> r = Inr RUnit \<longrightarrow> \<not> is_connected s1)"
    using exec_call_effect [OF Cons.prems(1), of env c] unfolding e fst_conv snd_conv .
  then have inv1: "provider_inv s1"
    and up: "is_connected s1 \<and> \<not> is_connected s \<longrightarrow> (\<exists>tmo. c = ConfirmLogin tmo \<and> r = Inr (RBool True))"
    and down: "c = Close \<and> r = Inr RUnit \<longrightarrow> \<not> is_connected s1"
    by blast+
  from Cons.prems(2) all r have "is_connected (snd (run_calls env cs s1))" by simp
  from Cons.IH [OF inv1 this] r
  consider (still) "is_connected s1" "(Close, Inr RUnit) \<notin> set h" | (later) "login_confirmed h"
    by auto
  then show ?case
  proof cases
    case still
    show ?thesis
    proof (cases "is_connected s")
      case True
      with still down all show ?thesis by auto
    next
      case False
      with still up obtain tmo where "c = ConfirmLogin tmo" "r = Inr (RBool True)" by blast
      with still(2) have "login_confirmed ((c, r) # h)"
        unfolding login_confirmed_def by (intro exI [of _ "[]"] exI [of _ tmo] exI [of _ h]) simp
      with all show ?thesis by simp
    qed
  next
    case later
    then obtain before tmo after where
      "h = before @ (ConfirmLogin tmo, Inr (RBool True)) # after" "(Close, Inr RUnit) \<notin> set after"
      unfolding login_confirmed_def by blast
    then have "login_confirmed ((c, r) # h)"
      unfolding login_confirmed_def
      by (intro exI [of _ "(c, r) # before"] exI [of _ tmo] exI [of _ after]) simp
    with all show ?thesis by simp
  qed
qed


lemma close_returns:
  assumes "\<And>t e. quit env t = Some e \<Longrightarrow> is_Exception e"
  shows "fst (close env s) = Inr ()"
  using client_close_returns [where env = env and s = s] assms
  by (cases "client (provider s)") (simp_all add: close_def)

lemma history_close_returned:
  assumes "\<And>t e. quit env t = Some e \<Longrightarrow> is_Exception e"
      and "(Close, r) \<in> set (fst (run_calls env cs s))"
  shows "r = Inr RUnit"
  using assms(2)
proof (induction cs arbitrary: s)
  case Nil
  then show ?case by simp
next
  case (Cons c cs)
  obtain r1 s1 where e: "exec_call env c s = (r1, s1)" by (cases "exec_call env c s")
  obtain h s2 where h: "run_calls env cs s1 = (h, s2)" by (cases "run_calls env cs s1")
  from Cons.prems e h have "(Close, r) = (c, r1) \<or> (Close, r) \<in> set (fst (run_calls env cs s1))"
    by simp
  then show ?case
  proof
    assume "(Close, r) = (c, r1)"
    with e have "r = fst (exec_call env Close s)" by simp
    then show ?thesis using close_returns [where env = env and s = s] assms(1) by (simp add: returning_def)
  next
    assume "(Close, r) \<in> set (fst (run_calls env cs s1))"
    then show ?thesis by (rule Cons.IH)
  qed
qed

text \<open>
  Claim C10. On a new browser-session provider a successful \<open>connect\<close> leaves
  \<open>is_connected\<close> false, although \<open>wait_for_reply\<close> already runs the client's wait and
  \<open>send_message\<close> already sends (when the page shows no warning and the chat opens);
  whatever calls are made, \<open>is_connected\<close> holds only if some \<open>confirm_login\<close> returned
  \<open>True\<close> and no \<open>close\<close> returned after it (no \<open>close\<close> was called after it at all, when
  \<open>driver.quit()\<close> raises nothing but instances of \<open>Exception\<close>); and a \<open>confirm_login\<close> that
  returns \<open>True\<close> after the connect makes \<open>is_connected\<close> true.
\<close>

theorem connected_only_after_login:
  assumes "provider s = new_provider h"
  shows "(launch env (now s) = None \<longrightarrow>
            fst (connect env s) = Inr True \<and>
            \<not> is_connected (snd (connect env s)) \<and>
            wait_for_reply env ph tmo (snd (connect env s)) =
              client_wait_for_reply env tmo 3 None (snd (connect env s)) \<and>
            ((\<forall>t. check_for_blocks (page_source env t) = Inr False \<and>
                  navigate env t ph = Inr True \<and> typing env t msg = Inr True) \<longrightarrow>
               fst (send_message env ph msg (snd (connect env s))) = Inr True \<and>
               outbox (snd (send_message env ph msg (snd (connect env s)))) = outbox s @ [msg])) \<and>
         (is_connected (snd (run_calls env cs s)) \<longrightarrow> login_confirmed (fst (run_calls env cs s))) \<and>
         ((\<forall>t e. quit env t = Some e \<longrightarrow> is_Exception e) \<and>
          is_connected (snd (run_calls env cs s)) \<longrightarrow>
            (\<exists>before timeout after.
               fst (run_calls env cs s) = before @ (ConfirmLogin timeout, Inr (RBool True)) # after \<and>
               Close \<notin> fst ` set after)) \<and>
         (fst (confirm_login env tmo (snd (connect env s))) = Inr True \<longrightarrow>
            is_connected (snd (confirm_login env tmo (snd (connect env s)))))"
proof -
  from assms have inv: "provider_inv s" and nc: "\<not> is_connected s"
    by (simp_all add: provider_inv_def is_connected_def new_provider_def)
  have a: "fst (connect env s) = Inr True \<and>
            \<not> is_connected (snd (connect env s)) \<and>
            wait_for_reply env ph tmo (snd (connect env s)) =
              client_wait_for_reply env tmo 3 None (snd (connect env s)) \<and>
            ((\<forall>t. check_for_blocks (page_source env t) = Inr False \<and>
                  navigate env t ph = Inr True \<and> typing env t msg = Inr True) \<longrightarrow>
               fst (send_message env ph msg (snd (connect env s))) = Inr True \<and>
               outbox (snd (send_message env ph msg (snd (connect env s)))) = outbox s @ [msg])"
    if l: "launch env (now s) = None"
    using assms l
    by (simp add: connect_def Let_def is_connected_def new_provider_def wait_for_reply_def
          send_message_def open_chat_def client_send_message_def)
  have b: "login_confirmed (fst (run_calls env cs s))" if "is_connected (snd (run_calls env cs s))"
    using run_calls_connected [OF inv that] nc by blast
  have b': "\<exists>before timeout after.
               fst (run_calls env cs s) = before @ (ConfirmLogin timeout, Inr (RBool True)) # after \<and>
               Close \<notin> fst ` set after"
    if q: "\<forall>t e. quit env t = Some e \<longrightarrow> is_Exception e"
      and c: "is_connected (snd (run_calls env cs s))"
  proof -
    from b [OF c] obtain before timeout after where
      f: "fst (run_calls env cs s) = before @ (ConfirmLogin timeout, Inr (RBool True)) # after"
         "(Close, Inr RUnit) \<notin> set after"
      unfolding login_confirmed_def by blast
    have "Close \<notin> fst ` set after"
    proof
      assume "Close \<in> fst ` set after"
      then obtain r where r: "(Close, r) \<in> set after" by force
      with f(1) have "(Close, r) \<in> set (fst (run_calls env cs s))" by simp
      with q have "r = Inr RUnit" using history_close_returned [where env = env and r = r and cs = cs and s = s] by blast
      with r f(2) show False by simp
    qed
    with f(1) show ?thesis by blast
  qed
  have c: "is_connected (snd (confirm_login env tmo (snd (connect env s))))"
    if "fst (confirm_login env tmo (snd (connect env s))) = Inr True"
    using that
    by (auto simp: confirm_login_def wait_for_login_def Let_def is_connected_def
             split: option.splits if_splits)
  from a b b' c show ?thesis by blast
qed

theorem connected_only_after_login_witness:
  "fst (connect quiet fresh) = Inr True \<and>
   \<not> is_connected (snd (connect quiet fresh)) \<and>
   fst (send_message quiet ''923001234567'' ''Hello!'' (snd (connect quiet fresh))) = Inr True \<and>
   outbox (snd (send_message quiet ''923001234567'' ''Hello!'' (snd (connect quiet fresh)))) = [''Hello!''] \<and>
   is_connected (snd (confirm_login quiet 30 (snd (connect quiet fresh)))) \<and>
   is_connected (snd (run_calls quiet
      [Connect, ConfirmLogin 30, SendMessage ''923001234567'' ''Hello!''] fresh)) \<and>
   login_confirmed (fst (run_calls quiet
      [Connect, ConfirmLogin 30, SendMessage ''923001234567'' ''Hello!''] fresh)) \<and>
   \<not> is_connected (snd (run_calls quiet
      [Connect, ConfirmLogin 30, SendMessage ''923001234567'' ''Hello!'', Close] fresh))"
proof -
  have p: "provider fresh = new_provider False" by (simp add: fresh_def)
  have l: "launch quiet (now fresh) = None" by (simp add: quiet_def)
  have e: "\<forall>t. check_for_blocks (page_source quiet t) = Inr False \<and>
             navigate quiet t ''923001234567'' = Inr True \<and> typing quiet t ''Hello!'' = Inr True"
    by (simp add: quiet_def check_for_blocks_def) code_simp
  have o: "outbox fresh = []" by (simp add: fresh_def)
  have c: "fst (confirm_login quiet 30 (snd (connect quiet fresh))) = Inr True"
    by (simp add: confirm_login_def wait_for_login_def connect_def Let_def quiet_def fresh_def
          new_provider_def)
  have r: "is_connected (snd (run_calls quiet
      [Connect, ConfirmLogin 30, SendMessage ''923001234567'' ''Hello!''] fresh))"
    by code_simp
  have r': "\<not> is_connected (snd (run_calls quiet
      [Connect, ConfirmLogin 30, SendMessage ''923001234567'' ''Hello!'', Close] fresh))"
    by code_simp
  show ?thesis
    using connected_only_after_login [OF p, where env = quiet and ph = "''923001234567''"
            and tmo = 30 and msg = "''Hello!''"
            and cs = "[Connect, ConfirmLogin 30, SendMessage ''923001234567'' ''Hello!'']"]
          l e o c r r'
    by simp
qed

section \<open>Properties of the reply wait\<close>

lemma find_reply_Some:
  "find_reply B ig xs = Inr (Some text) \<Longrightarrow>
     \<exists>pre m post. xs = pre @ m # post \<and> new_reply B ig m text \<and>
        (\<forall>m' \<in> set pre. \<forall>t'. \<not> new_reply B ig m' t')"
proof (induction xs)
  case Nil
  then show ?case by simp
next
  case (Cons x xs)
  show ?case
  proof (cases "find_reply B ig (x # xs) = find_reply B ig xs \<and> (\<forall>t'. \<not> new_reply B ig x t')")
    case True
    with Cons.prems have "find_reply B ig xs = Inr (Some text)" by simp
    from Cons.IH [OF this] obtain pre m post where
      p: "xs = pre @ m # post" "new_reply B ig m text"
         "\<forall>m' \<in> set pre. \<forall>t'. \<not> new_reply B ig m' t'"
      by blast
    from p True have "x # xs = (x # pre) @ m # post \<and> new_reply B ig m text \<and>
        (\<forall>m' \<in> set (x # pre). \<forall>t'. \<not> new_reply B ig m' t')"
      by simp
    then show ?thesis by blast
  next
    case False
    with Cons.prems have "new_reply B ig x text"
      by (auto simp: new_reply_def split: if_splits sum.splits option.splits)
    then have "x # xs = [] @ x # xs \<and> new_reply B ig x text \<and>
        (\<forall>m' \<in> set []. \<forall>t'. \<not> new_reply B ig m' t')"
      by simp
    then show ?thesis by blast
  qed
qed

lemma find_reply_None:
  assumes "\<forall>m \<in> set xs. \<forall>t. \<not> new_reply B ig m t"
      and "\<forall>m \<in> set xs. \<forall>e. extract_text_from_message (element m) = Inl e \<longrightarrow> is_Exception e"
  shows "find_reply B ig xs = Inr None \<or> (\<exists>e. find_reply B ig xs = Inl e \<and> is_Exception e)"
  using assms
proof (induction xs)
  case Nil
  then show ?case by simp
next
  case (Cons x xs)
  then have ih: "find_reply B ig xs = Inr None \<or> (\<exists>e. find_reply B ig xs = Inl e \<and> is_Exception e)"
    by simp
  from Cons.prems have nx: "\<forall>t. \<not> new_reply B ig x t"
    and ex: "\<forall>e. extract_text_from_message (element x) = Inl e \<longrightarrow> is_Exception e"
    by simp_all
  show ?case
  proof (cases "extract_text_from_message (element x)")
    case (Inl e)
    with ex ih show ?thesis by auto
  next
    case (Inr r)
    with nx ih show ?thesis
      by (cases r) (auto simp: new_reply_def split: option.splits)
  qed
qed

lemma wait_loop_found:
  "wait_loop env B ig st tmo poll s = (Inr (Some text), s') \<Longrightarrow>
     \<exists>t. now s \<le> t \<and> t - st < tmo \<and> now s' = step env t \<and>
       (\<exists>older m newer. scan env t = older @ m # newer \<and> new_reply B ig m text \<and>
          (\<forall>m' \<in> set newer. \<forall>t'. \<not> new_reply B ig m' t'))"
proof (induction env B ig st tmo poll s rule: wait_loop.induct)
  case (1 env B ig st tmo poll s)
  let ?s2 = "s\<lparr>now := step env (now s) + poll\<rparr>"
  let ?P = "\<lambda>t. t - st < tmo \<and> now s' = step env t \<and>
       (\<exists>older m newer. scan env t = older @ m # newer \<and> new_reply B ig m text \<and>
          (\<forall>m' \<in> set newer. \<forall>t'. \<not> new_reply B ig m' t'))"
  have le: "now s \<le> now ?s2" by (simp add: step_def)
  have later: "\<exists>t. now s \<le> t \<and> ?P t" if "\<exists>t. now ?s2 \<le> t \<and> ?P t"
    using that le by (meson le_trans)
  note unfold = wait_loop.simps [of env B ig st tmo poll s]
  show ?case
  proof (cases "now s - st < tmo")
    case False
    with "1.prems" show ?thesis by (simp add: unfold)
  next
    case inside: True
    show ?thesis
    proof (cases "scan env (now s) = []")
      case True
      with inside "1.prems" have "wait_loop env B ig st tmo poll ?s2 = (Inr (Some text), s')"
        by (simp add: unfold)
      from "1.IH"(1) [OF inside True this] show ?thesis by (rule later)
    next
      case nonempty: False
      show ?thesis
      proof (cases "find_reply B ig (rev (scan env (now s)))")
        case (Inl e)
        show ?thesis
        proof (cases "is_Exception e")
          case True
          with Inl inside nonempty "1.prems"
          have "wait_loop env B ig st tmo poll ?s2 = (Inr (Some text), s')"
            by (simp add: unfold)
          from "1.IH"(2) [OF inside nonempty Inl True this] show ?thesis by (rule later)
        next
          case False
          with Inl inside nonempty "1.prems" show ?thesis by (simp add: unfold)
        qed
      next
        case (Inr r)
        show ?thesis
        proof (cases r)
          case None
          with Inr inside nonempty "1.prems"
          have "wait_loop env B ig st tmo poll ?s2 = (Inr (Some text), s')"
            by (simp add: unfold)
          from "1.IH"(3) [OF inside nonempty Inr None this] show ?thesis by (rule later)
        next
          case (Some found)
          with Inr inside nonempty "1.prems"
          have eq: "found = text" "s' = s\<lparr>now := step env (now s)\<rparr>"
            by (simp_all add: unfold)
          with Inr Some have "find_reply B ig (rev (scan env (now s))) = Inr (Some text)" by simp
          from find_reply_Some [OF this] obtain pre m post where
            p: "rev (scan env (now s)) = pre @ m # post" "new_reply B ig m text"
               "\<forall>m' \<in> set pre. \<forall>t'. \<not> new_reply B ig m' t'"
            by blast
          from p(1) have "scan env (now s) = rev post @ m # rev pre"
            by (metis rev_append rev.simps(2) rev_rev_ident append_assoc append_Cons append_Nil)
          with p(2,3) have "\<exists>older m newer. scan env (now s) = older @ m # newer \<and>
              new_reply B ig m text \<and> (\<forall>m' \<in> set newer. \<forall>t'. \<not> new_reply B ig m' t')"
            by (metis set_rev)
          with inside eq(2) have "now s \<le> now s \<and> ?P (now s)" by simp
          then show ?thesis by blast
        qed
      qed
    qed
  qed
qed

lemma wait_loop_timeout:
  assumes "\<forall>t m text. t - st < tmo \<longrightarrow> m \<in> set (scan env t) \<longrightarrow> \<not> new_reply B ig m text"
      and "\<forall>t m e. t - st < tmo \<longrightarrow> m \<in> set (scan env t) \<longrightarrow>
             extract_text_from_message (element m) = Inl e \<longrightarrow> is_Exception e"
  shows "fst (wait_loop env B ig st tmo poll s) = Inr None \<and>
         tmo \<le> now (snd (wait_loop env B ig st tmo poll s)) - st"
  using assms
proof (induction env B ig st tmo poll s rule: wait_loop.induct)
  case (1 env B ig st tmo poll s)
  let ?s2 = "s\<lparr>now := step env (now s) + poll\<rparr>"
  note unfold = wait_loop.simps [of env B ig st tmo poll s]
  show ?case
  proof (cases "now s - st < tmo")
    case False
    then show ?thesis by (simp add: unfold)
  next
    case inside: True
    show ?thesis
    proof (cases "scan env (now s) = []")
      case True
      with inside "1.IH"(1) [OF inside True "1.prems"] show ?thesis by (simp add: unfold)
    next
      case nonempty: False
      from inside "1.prems" have
        "\<forall>m \<in> set (rev (scan env (now s))). \<forall>t. \<not> new_reply B ig m t"
        "\<forall>m \<in> set (rev (scan env (now s))). \<forall>e.
            extract_text_from_message (element m) = Inl e \<longrightarrow> is_Exception e"
        by auto
      from find_reply_None [OF this]
      consider "find_reply B ig (rev (scan env (now s))) = Inr None"
        | e where "find_reply B ig (rev (scan env (now s))) = Inl e" "is_Exception e"
        by blast
      then show ?thesis
      proof cases
        case 1
        with inside nonempty "1.IH"(3) [OF inside nonempty 1 refl "1.prems"] show ?thesis
          by (simp add: unfold)
      next
        case 2
        with inside nonempty "1.IH"(2) [OF inside nonempty 2 "1.prems"] show ?thesis
          by (simp add: unfold)
      qed
    qed
  qed
qed

lemma poll_time_mono: "t \<le> poll_time env poll t k"
proof (induction k arbitrary: t)
  case 0
  then show ?case by simp
next
  case (Suc k)
  have "t \<le> step env t + poll" by (simp add: step_def)
  also have "\<dots> \<le> poll_time env poll (step env t + poll) k" by (rule Suc.IH)
  finally show ?case by simp
qed

lemma passes_over_no_reply: "passes_over B ig m \<Longrightarrow> \<not> new_reply B ig m text"
  by (auto simp: passes_over_def new_reply_def split: sum.splits option.splits)

lemma find_reply_hit:
  assumes "\<forall>m' \<in> set pre. passes_over B ig m'" and "new_reply B ig m text"
  shows "find_reply B ig (pre @ m # post) = Inr (Some text)"
  using assms
proof (induction pre)
  case Nil
  then show ?case by (auto simp: new_reply_def split: option.splits)
next
  case (Cons x pre)
  then have "passes_over B ig x" and ih: "find_reply B ig (pre @ m # post) = Inr (Some text)"
    by simp_all
  then show ?case
    by (auto simp: passes_over_def split: sum.splits option.splits)
qed

lemma wait_loop_quiet_poll:
  assumes "now s - st < tmo"
      and "\<forall>m \<in> set (scan env (now s)).
             (\<forall>text. \<not> new_reply B ig m text) \<and>
             (\<forall>e. extract_text_from_message (element m) = Inl e \<longrightarrow> is_Exception e)"
  shows "wait_loop env B ig st tmo poll s =
           wait_loop env B ig st tmo poll (s\<lparr>now := step env (now s) + poll\<rparr>)"
proof (cases "scan env (now s) = []")
  case True
  with assms(1) show ?thesis by (simp add: wait_loop.simps [of env B ig st tmo poll s])
next
  case False
  from assms(2) have
    "\<forall>m \<in> set (rev (scan env (now s))). \<forall>t. \<not> new_reply B ig m t"
    "\<forall>m \<in> set (rev (scan env (now s))). \<forall>e.
        extract_text_from_message (element m) = Inl e \<longrightarrow> is_Exception e"
    by auto
  from find_reply_None [OF this]
  consider "find_reply B ig (rev (scan env (now s))) = Inr None"
    | e where "find_reply B ig (rev (scan env (now s))) = Inl e" "is_Exception e"
    by blast
  then show ?thesis
    using assms(1) False by cases (simp_all add: wait_loop.simps [of env B ig st tmo poll s])
qed

lemma wait_loop_hit:
  assumes "poll_time env poll (now s) k - st < tmo"
      and "\<forall>j<k. \<forall>m' \<in> set (scan env (poll_time env poll (now s) j)).
             (\<forall>text'. \<not> new_reply B ig m' text') \<and>
             (\<forall>e. extract_text_from_message (element m') = Inl e \<longrightarrow> is_Exception e)"
      and "scan env (poll_time env poll (now s) k) = older @ m # newer"
      and "new_reply B ig m reply"
      and "\<forall>m' \<in> set newer. passes_over B ig m'"
  shows "wait_loop env B ig st tmo poll s =
           (Inr (Some reply), s\<lparr>now := step env (poll_time env poll (now s) k)\<rparr>)"
  using assms(1-3)
proof (induction k arbitrary: s)
  case 0
  from 0(3) have sc: "rev (scan env (now s)) = rev newer @ m # rev older" by simp
  have "find_reply B ig (rev newer @ m # rev older) = Inr (Some reply)"
    using assms(4,5) by (intro find_reply_hit) simp_all
  with 0(1,3) sc show ?case
    by (simp add: wait_loop.simps [of env B ig st tmo poll s])
next
  case (Suc k)
  let ?s2 = "s\<lparr>now := step env (now s) + poll\<rparr>"
  have "now s \<le> poll_time env poll (now s) (Suc k)" by (rule poll_time_mono)
  with Suc.prems(1) have inside: "now s - st < tmo" by simp
  from Suc.prems(2) have "\<forall>m' \<in> set (scan env (poll_time env poll (now s) 0)).
             (\<forall>text'. \<not> new_reply B ig m' text') \<and>
             (\<forall>e. extract_text_from_message (element m') = Inl e \<longrightarrow> is_Exception e)"
    by blast
  then have quiet_poll: "\<forall>m' \<in> set (scan env (now s)).
             (\<forall>text'. \<not> new_reply B ig m' text') \<and>
             (\<forall>e. extract_text_from_message (element m') = Inl e \<longrightarrow> is_Exception e)"
    by simp
  have next_poll: "wait_loop env B ig st tmo poll s = wait_loop env B ig st tmo poll ?s2"
    using inside quiet_poll by (rule wait_loop_quiet_poll)
  have a: "poll_time env poll (now ?s2) k - st < tmo" using Suc.prems(1) by simp
  have b: "\<forall>j<k. \<forall>m' \<in> set (scan env (poll_time env poll (now ?s2) j)).
             (\<forall>text'. \<not> new_reply B ig m' text') \<and>
             (\<forall>e. extract_text_from_message (element m') = Inl e \<longrightarrow> is_Exception e)"
  proof (intro allI impI)
    fix j assume "j < k"
    then have "Suc j < Suc k" by simp
    with Suc.prems(2) have "\<forall>m' \<in> set (scan env (poll_time env poll (now s) (Suc j))).
             (\<forall>text'. \<not> new_reply B ig m' text') \<and>
             (\<forall>e. extract_text_from_message (element m') = Inl e \<longrightarrow> is_Exception e)"
      by blast
    then show "\<forall>m' \<in> set (scan env (poll_time env poll (now ?s2) j)).
             (\<forall>text'. \<not> new_reply B ig m' text') \<and>
             (\<forall>e. extract_text_from_message (element m') = Inl e \<longrightarrow> is_Exception e)"
      by simp
  qed
  have c: "scan env (poll_time env poll (now ?s2) k) = older @ m # newer"
    using Suc.prems(3) by simp
  from Suc.IH [OF a b c]
  have "wait_loop env B ig st tmo poll ?s2 =
          (Inr (Some reply), ?s2\<lparr>now := step env (poll_time env poll (now ?s2) k)\<rparr>)" .
  with next_poll show ?case by simp
qed

lemma client_wait_for_reply_hit:
  assumes "poll_time env poll (step env (now s)) k - now s < timeout"
      and "\<forall>j<k. \<forall>m' \<in> set (scan env (poll_time env poll (step env (now s)) j)).
             (\<forall>text'. \<not> new_reply (baseline_of (scan env (now s))) ig m' text') \<and>
             (\<forall>e. extract_text_from_message (element m') = Inl e \<longrightarrow> is_Exception e)"
      and "scan env (poll_time env poll (step env (now s)) k) = older @ m # newer"
      and "new_reply (baseline_of (scan env (now s))) ig m reply"
      and "\<forall>m' \<in> set newer. passes_over (baseline_of (scan env (now s))) ig m'"
  shows "client_wait_for_reply env timeout poll ig s =
           (Inr (Some reply), s\<lparr>now := step env (poll_time env poll (step env (now s)) k)\<rparr>)"
proof -
  let ?s1 = "s\<lparr>now := step env (now s)\<rparr>"
  have n: "now ?s1 = step env (now s)" by simp
  have "wait_loop env (baseline_of (scan env (now s))) ig (now s) timeout poll ?s1 =
          (Inr (Some reply), ?s1\<lparr>now := step env (poll_time env poll (now ?s1) k)\<rparr>)"
    by (rule wait_loop_hit) (use assms in \<open>simp_all only: n\<close>)
  then show ?thesis by (simp add: client_wait_for_reply_def Let_def)
qed

text \<open>
  Claim C2. With the baseline taken from the scan made before waiting: when \<open>wait_for_reply\<close>
  returns a text, some scan made after the start and before the timeout contains a message
  whose token is in that scan and not in the baseline, which is incoming and whose extracted
  text is the returned one, non-empty and not the text to ignore, and no newer message of that
  scan is such a message; when no scan before the timeout contains such a message (and
  the extraction raises nothing but instances of \<open>Exception\<close>), it returns \<open>None\<close>, not before the
  timeout has elapsed; and at the first poll before the timeout whose scan contains such a
  message, with only messages newer than it that the loop walks past, exactly the text of
  that message is returned, at that poll.
\<close>

theorem wait_for_reply_new_incoming:
  "(fst (client_wait_for_reply env timeout poll ig s) = Inr (Some text) \<longrightarrow>
      (\<exists>t older m newer.
          now s < t \<and> t - now s < timeout \<and> scan env t = older @ m # newer \<and>
          msg_id m \<in> msg_id ` set (scan env t) - baseline_of (scan env (now s)) \<and>
          new_reply (baseline_of (scan env (now s))) ig m text \<and>
          (\<forall>m' \<in> set newer. \<forall>t'. \<not> new_reply (baseline_of (scan env (now s))) ig m' t'))) \<and>
   ((\<forall>t m text. t - now s < timeout \<longrightarrow> m \<in> set (scan env t) \<longrightarrow>
        \<not> new_reply (baseline_of (scan env (now s))) ig m text) \<and>
    (\<forall>t m e. t - now s < timeout \<longrightarrow> m \<in> set (scan env t) \<longrightarrow>
        extract_text_from_message (element m) = Inl e \<longrightarrow> is_Exception e) \<longrightarrow>
      fst (client_wait_for_reply env timeout poll ig s) = Inr None \<and>
      timeout \<le> now (snd (client_wait_for_reply env timeout poll ig s)) - now s) \<and>
   (poll_time env poll (step env (now s)) k - now s < timeout \<and>
    (\<forall>j<k. \<forall>m' \<in> set (scan env (poll_time env poll (step env (now s)) j)).
        (\<forall>text'. \<not> new_reply (baseline_of (scan env (now s))) ig m' text') \<and>
        (\<forall>e. extract_text_from_message (element m') = Inl e \<longrightarrow> is_Exception e)) \<and>
    scan env (poll_time env poll (step env (now s)) k) = earlier @ found # later \<and>
    new_reply (baseline_of (scan env (now s))) ig found reply \<and>
    (\<forall>m' \<in> set later. passes_over (baseline_of (scan env (now s))) ig m') \<longrightarrow>
      client_wait_for_reply env timeout poll ig s =
        (Inr (Some reply), s\<lparr>now := step env (poll_time env poll (step env (now s)) k)\<rparr>))"
proof -
  let ?B = "baseline_of (scan env (now s))"
  let ?s1 = "s\<lparr>now := step env (now s)\<rparr>"
  have unfold: "client_wait_for_reply env timeout poll ig s =
      wait_loop env ?B ig (now s) timeout poll ?s1"
    by (simp add: client_wait_for_reply_def Let_def)
  have a: "\<exists>t older m newer.
          now s < t \<and> t - now s < timeout \<and> scan env t = older @ m # newer \<and>
          msg_id m \<in> msg_id ` set (scan env t) - ?B \<and> new_reply ?B ig m text \<and>
          (\<forall>m' \<in> set newer. \<forall>t'. \<not> new_reply ?B ig m' t')"
    if r: "fst (client_wait_for_reply env timeout poll ig s) = Inr (Some text)"
  proof -
    obtain s' where "wait_loop env ?B ig (now s) timeout poll ?s1 = (Inr (Some text), s')"
      using r unfolding unfold by (cases "wait_loop env ?B ig (now s) timeout poll ?s1") simp
    from wait_loop_found [OF this] obtain t older m newer where
      f: "now ?s1 \<le> t" "t - now s < timeout" "scan env t = older @ m # newer"
         "new_reply ?B ig m text" "\<forall>m' \<in> set newer. \<forall>t'. \<not> new_reply ?B ig m' t'"
      by blast
    from f(1) have "now s < t" by (simp add: step_def)
    moreover from f(3,4) have "msg_id m \<in> msg_id ` set (scan env t) - ?B"
      by (simp add: new_reply_def)
    ultimately show ?thesis using f by blast
  qed
  have b: "fst (client_wait_for_reply env timeout poll ig s) = Inr None \<and>
      timeout \<le> now (snd (client_wait_for_reply env timeout poll ig s)) - now s"
    if "\<forall>t m text. t - now s < timeout \<longrightarrow> m \<in> set (scan env t) \<longrightarrow> \<not> new_reply ?B ig m text"
       "\<forall>t m e. t - now s < timeout \<longrightarrow> m \<in> set (scan env t) \<longrightarrow>
          extract_text_from_message (element m) = Inl e \<longrightarrow> is_Exception e"
    unfolding unfold using that by (rule wait_loop_timeout)
  have c: "client_wait_for_reply env timeout poll ig s =
        (Inr (Some reply), s\<lparr>now := step env (poll_time env poll (step env (now s)) k)\<rparr>)"
    if "poll_time env poll (step env (now s)) k - now s < timeout"
       "\<forall>j<k. \<forall>m' \<in> set (scan env (poll_time env poll (step env (now s)) j)).
          (\<forall>text'. \<not> new_reply ?B ig m' text') \<and>
          (\<forall>e. extract_text_from_message (element m') = Inl e \<longrightarrow> is_Exception e)"
       "scan env (poll_time env poll (step env (now s)) k) = earlier @ found # later"
       "new_reply ?B ig found reply"
       "\<forall>m' \<in> set later. passes_over ?B ig m'"
    using that by (rule client_wait_for_reply_hit)
  from a b c show ?thesis by blast
qed

lemma bubble_texts:
  "extract_text_from_message (bubble ''Hi'') = Inr (Some ''Hi'') \<and>
   extract_text_from_message (bubble ''Loved it, thanks!'') = Inr (Some ''Loved it, thanks!'') \<and>
   extract_text_from_message (bubble []) = Inr None"
  by code_simp

theorem wait_for_reply_new_incoming_witness:
  "fst (client_wait_for_reply chat 300 3 None fresh) = Inr (Some ''Loved it, thanks!'') \<and>
   (\<exists>t older m newer.
      now fresh < t \<and> t - now fresh < 300 \<and> scan chat t = older @ m # newer \<and>
      msg_id m \<in> msg_id ` set (scan chat t) - baseline_of (scan chat (now fresh)) \<and>
      new_reply (baseline_of (scan chat (now fresh))) None m ''Loved it, thanks!'' \<and>
      (\<forall>m' \<in> set newer. \<forall>t'. \<not> new_reply (baseline_of (scan chat (now fresh))) None m' t')) \<and>
   fst (client_wait_for_reply quiet 300 3 None fresh) = Inr None \<and>
   client_wait_for_reply thread 300 3 None fresh =
     (Inr (Some ''Loved it, thanks!''), fresh\<lparr>now := 6\<rparr>)"
proof -
  have r: "fst (client_wait_for_reply chat 300 3 None fresh) = Inr (Some ''Loved it, thanks!'')"
    by code_simp
  have q1: "\<forall>t m text. t - now fresh < 300 \<longrightarrow> m \<in> set (scan quiet t) \<longrightarrow>
        \<not> new_reply (baseline_of (scan quiet (now fresh))) None m text"
    by (simp add: quiet_def)
  have q2: "\<forall>t m e. t - now fresh < 300 \<longrightarrow> m \<in> set (scan quiet t) \<longrightarrow>
        extract_text_from_message (element m) = Inl e \<longrightarrow> is_Exception e"
    by (simp add: quiet_def)
  have t0: "now fresh = 0" "\<And>t. step thread t = Suc t"
    by (simp_all add: fresh_def step_def thread_def quiet_def)
  have t1: "poll_time thread 3 (step thread (now fresh)) 0 = 1"
    "poll_time thread 3 (step thread (now fresh)) (Suc 0) = 5"
    by (simp_all add: t0)
  have sc: "\<And>t. t < 4 \<Longrightarrow> scan thread t =
       [\<lparr>element = bubble ''Hi'', is_incoming = True, msg_id = ''true_1''\<rparr>]"
    "\<And>t. \<not> t < 4 \<Longrightarrow> scan thread t =
       [\<lparr>element = bubble ''Hi'', is_incoming = True, msg_id = ''true_1''\<rparr>] @
       \<lparr>element = bubble ''Loved it, thanks!'', is_incoming = True, msg_id = ''true_3''\<rparr> #
       [\<lparr>element = bubble ''Thank you for your feedback'', is_incoming = False,
          msg_id = ''false_4''\<rparr>,
        \<lparr>element = bubble [], is_incoming = True, msg_id = ''true_5''\<rparr>]"
    by (simp_all add: thread_def quiet_def)
  have p1: "poll_time thread 3 (step thread (now fresh)) (Suc 0) - now fresh < 300"
    by (simp add: t1 del: poll_time.simps)
  have p2: "\<forall>j<Suc 0. \<forall>m' \<in> set (scan thread (poll_time thread 3 (step thread (now fresh)) j)).
        (\<forall>text'. \<not> new_reply (baseline_of (scan thread (now fresh))) None m' text') \<and>
        (\<forall>e. extract_text_from_message (element m') = Inl e \<longrightarrow> is_Exception e)"
  proof (intro allI impI)
    fix j :: nat
    assume "j < Suc 0"
    then have j: "j = 0" by simp
    show "\<forall>m' \<in> set (scan thread (poll_time thread 3 (step thread (now fresh)) j)).
        (\<forall>text'. \<not> new_reply (baseline_of (scan thread (now fresh))) None m' text') \<and>
        (\<forall>e. extract_text_from_message (element m') = Inl e \<longrightarrow> is_Exception e)"
      unfolding j t1(1) by (simp add: t0(1) sc new_reply_def baseline_of_def bubble_texts)
  qed
  have p3: "scan thread (poll_time thread 3 (step thread (now fresh)) (Suc 0)) =
       [\<lparr>element = bubble ''Hi'', is_incoming = True, msg_id = ''true_1''\<rparr>] @
       \<lparr>element = bubble ''Loved it, thanks!'', is_incoming = True, msg_id = ''true_3''\<rparr> #
       [\<lparr>element = bubble ''Thank you for your feedback'', is_incoming = False,
          msg_id = ''false_4''\<rparr>,
        \<lparr>element = bubble [], is_incoming = True, msg_id = ''true_5''\<rparr>]"
    by (simp add: t1 sc del: poll_time.simps)
  have p4: "new_reply (baseline_of (scan thread (now fresh))) None
       \<lparr>element = bubble ''Loved it, thanks!'', is_incoming = True, msg_id = ''true_3''\<rparr>
       ''Loved it, thanks!''"
    by (simp add: t0(1) sc new_reply_def baseline_of_def bubble_texts)
  have p5: "\<forall>m' \<in> set [\<lparr>element = bubble ''Thank you for your feedback'', is_incoming = False,
          msg_id = ''false_4''\<rparr>,
        \<lparr>element = bubble [], is_incoming = True, msg_id = ''true_5''\<rparr>].
      passes_over (baseline_of (scan thread (now fresh))) None m'"
    by (simp add: passes_over_def bubble_texts)
  have hit: "client_wait_for_reply thread 300 3 None fresh =
     (Inr (Some ''Loved it, thanks!''),
      fresh\<lparr>now := step thread (poll_time thread 3 (step thread (now fresh)) (Suc 0))\<rparr>)"
    using wait_for_reply_new_incoming [where env = thread and timeout = 300 and poll = 3
            and ig = None and s = fresh and k = "Suc 0"
            and earlier = "[\<lparr>element = bubble ''Hi'', is_incoming = True, msg_id = ''true_1''\<rparr>]"
            and found = "\<lparr>element = bubble ''Loved it, thanks!'', is_incoming = True,
                           msg_id = ''true_3''\<rparr>"
            and later = "[\<lparr>element = bubble ''Thank you for your feedback'', is_incoming = False,
                           msg_id = ''false_4''\<rparr>,
                         \<lparr>element = bubble [], is_incoming = True, msg_id = ''true_5''\<rparr>]"
            and reply = "''Loved it, thanks!''"]
          p1 p2 p3 p4 p5
    by blast
  have none: "fst (client_wait_for_reply quiet 300 3 None fresh) = Inr None"
    using wait_for_reply_new_incoming [where env = quiet and timeout = 300 and poll = 3
            and ig = None and s = fresh] q1 q2
    by blast
  have sound: "\<exists>t older m newer.
      now fresh < t \<and> t - now fresh < 300 \<and> scan chat t = older @ m # newer \<and>
      msg_id m \<in> msg_id ` set (scan chat t) - baseline_of (scan chat (now fresh)) \<and>
      new_reply (baseline_of (scan chat (now fresh))) None m ''Loved it, thanks!'' \<and>
      (\<forall>m' \<in> set newer. \<forall>t'. \<not> new_reply (baseline_of (scan chat (now fresh))) None m' t')"
    using wait_for_reply_new_incoming [where env = chat and timeout = 300 and poll = 3
            and ig = None and s = fresh and ?text = "''Loved it, thanks!''"] r
    by blast
  have fin: "step thread (poll_time thread 3 (step thread (now fresh)) (Suc 0)) = 6"
    by (simp add: t0)
  from hit have first: "client_wait_for_reply thread 300 3 None fresh =
     (Inr (Some ''Loved it, thanks!''), fresh\<lparr>now := 6\<rparr>)"
    by (simp only: fin)
  from r sound none first show ?thesis by (intro conjI)
qed

section \<open>Properties of the campaign\<close>

subsection \<open>What a run changes in the table\<close>

lemma frame_refl: "list_all2 (only_audit_fields ids) rows rows"
  by (simp add: list_all2_refl only_audit_fields_def)

lemma frame_trans:
  assumes "list_all2 (only_audit_fields ids) a b" and "list_all2 (only_audit_fields ids) b c"
  shows "list_all2 (only_audit_fields ids) a c"
proof (rule list_all2_trans [OF _ assms])
  fix x y z
  assume "only_audit_fields ids x y" and "only_audit_fields ids y z"
  then show "only_audit_fields ids x z"
    by (auto simp: only_audit_fields_def identity_fields_def)
qed

lemma frame_update:
  assumes "\<And>row. identity_fields (updates row) = identity_fields row" and "cid \<in> ids"
  shows "list_all2 (only_audit_fields ids) rows (update_customer cid updates rows)"
  using assms
  by (induction rows) (auto simp: update_customer_def only_audit_fields_def)

lemma frame_mark_done:
  "cid \<in> ids \<Longrightarrow> list_all2 (only_audit_fields ids) rows (mark_done cid sent m rows)"
  unfolding mark_done_def by (rule frame_update) (simp_all add: identity_fields_def)

lemma frame_mark_no_reply:
  "cid \<in> ids \<Longrightarrow> list_all2 (only_audit_fields ids) rows (mark_no_reply cid rows)"
  unfolding mark_no_reply_def by (rule frame_update) (simp_all add: identity_fields_def)

lemma frame_mark_error:
  "cid \<in> ids \<Longrightarrow> list_all2 (only_audit_fields ids) rows (mark_error cid err rows)"
  unfolding mark_error_def by (rule frame_update) (simp_all add: identity_fields_def)

lemmas frame_marks = frame_refl frame_mark_done frame_mark_no_reply frame_mark_error

lemma frame_answer_review:
  "customer_id cust \<in> ids \<Longrightarrow>
     list_all2 (only_audit_fields ids) (db st)
       (db (snd (answer_review env svc llm link cust m failure st)))"
  by (auto simp: answer_review_def Let_def frame_marks
           split: sum.splits prod.splits bool.splits)

lemma frame_existing_review:
  "customer_id cust \<in> ids \<Longrightarrow>
     list_all2 (only_audit_fields ids) (db st)
       (db (snd (existing_review env svc llm link cust st)))"
  using frame_answer_review [of cust ids "st\<lparr>session := s\<rparr>" for s]
  by (auto simp: existing_review_def frame_marks
           split: sum.splits prod.splits option.splits)

lemma frame_request_review:
  "customer_id cust \<in> ids \<Longrightarrow>
     list_all2 (only_audit_fields ids) (db st)
       (db (snd (request_review env svc llm link cust st)))"
  using frame_answer_review [of cust ids "st\<lparr>session := s\<rparr>" for s]
  by (auto simp: request_review_def Let_def frame_marks
           split: sum.splits prod.splits option.splits bool.splits)

lemma frame_process_customer:
  assumes "customer_id cust \<in> ids"
  shows "list_all2 (only_audit_fields ids) (db st)
           (db (snd (process_customer env svc llm link pending cust st)))"
proof -
  let ?r = "if has_review cust then existing_review env svc llm link cust st
            else request_review env svc llm link cust st"
  have "list_all2 (only_audit_fields ids) (db st) (db (snd ?r))"
    using assms by (simp add: frame_existing_review frame_request_review)
  moreover have "db (snd (process_customer env svc llm link pending cust st)) = db (snd ?r)"
    unfolding process_customer_def
    by (cases ?r) (auto split: option.splits prod.splits sum.splits)
  ultimately show ?thesis by simp
qed

lemma frame_campaign_step:
  assumes "customer_id cust \<in> ids"
  shows "list_all2 (only_audit_fields ids) (db st)
           (db (snd (campaign_step env svc llm link pending cust st)))"
proof (cases "process_customer env svc llm link pending cust st")
  case (Pair raised st1)
  with frame_process_customer [OF assms, of st env svc llm link pending]
  have f: "list_all2 (only_audit_fields ids) (db st) (db st1)" by simp
  from assms have "list_all2 (only_audit_fields ids) (db st1)
      (mark_error (customer_id cust) err (db st1))" for err
    by (rule frame_mark_error)
  with f have "list_all2 (only_audit_fields ids) (db st)
      (mark_error (customer_id cust) err (db st1))" for err
    by (rule frame_trans)
  with f Pair show ?thesis
    by (auto simp: campaign_step_def split: option.splits)
qed

lemma frame_campaign_loop:
  assumes "customer_id ` set custs \<subseteq> ids"
  shows "list_all2 (only_audit_fields ids) (db st)
           (db (snd (campaign_loop env svc llm link pending custs st)))"
  using assms
proof (induction custs arbitrary: st)
  case Nil
  then show ?case by (simp add: frame_refl)
next
  case (Cons cust rest)
  obtain c st1 where s: "campaign_step env svc llm link pending cust st = (c, st1)"
    by (cases "campaign_step env svc llm link pending cust st")
  from Cons.prems have "customer_id cust \<in> ids" by simp
  from frame_campaign_step [OF this, of st env svc llm link pending] s
  have f: "list_all2 (only_audit_fields ids) (db st) (db st1)" by simp
  from Cons.prems have "customer_id ` set rest \<subseteq> ids" by simp
  from Cons.IH [OF this]
  have "list_all2 (only_audit_fields ids) (db st1)
          (db (snd (campaign_loop env svc llm link pending rest st1)))" .
  with f have "list_all2 (only_audit_fields ids) (db st)
          (db (snd (campaign_loop env svc llm link pending rest st1)))"
    by (rule frame_trans)
  with f s show ?case by (cases c) simp_all
qed

lemma frame_campaign_loop_result:
  assumes "campaign_loop env svc llm link pending custs (st\<lparr>session := s\<rparr>) = (r, st')"
  shows "list_all2 (only_audit_fields (customer_id ` set custs)) (db st) (db st')"
  using frame_campaign_loop [of custs "customer_id ` set custs" "st\<lparr>session := s\<rparr>"
          env svc llm link pending] assms
  by simp

lemma frame_run_campaign:
  "list_all2 (only_audit_fields (customer_id ` set (get_pending_customers (db st))))
     (db st) (db (snd (run_campaign env svc llm link st)))"
  unfolding run_campaign_def Let_def
  by (auto simp: frame_refl split: prod.splits sum.splits bool.splits option.splits
           dest!: frame_campaign_loop_result)

text \<open>
  Claim C8, amended. A campaign run keeps the identifying fields (id, owner, name, phone,
  product, creation time) of every row, deletes and adds no row, and leaves the rows of
  customers that were not pending exactly as they were; what it may change are the fields
  status, sentiment, last\_message and has\_review.
\<close>

theorem campaign_frame:
  "list_all2
     (\<lambda>row row'. identity_fields row' = identity_fields row \<and>
        (customer_id row \<notin> customer_id ` set (get_pending_customers (db st)) \<longrightarrow> row' = row))
     (db st) (db (snd (run_campaign env svc llm link st))) \<and>
   map identity_fields (db (snd (run_campaign env svc llm link st))) = map identity_fields (db st)"
proof -
  let ?ids = "customer_id ` set (get_pending_customers (db st))"
  have "list_all2 (only_audit_fields ?ids) (db st) (db (snd (run_campaign env svc llm link st)))"
    by (rule frame_run_campaign)
  then have a: "list_all2
     (\<lambda>row row'. identity_fields row' = identity_fields row \<and> (customer_id row \<notin> ?ids \<longrightarrow> row' = row))
     (db st) (db (snd (run_campaign env svc llm link st)))"
    by (simp add: only_audit_fields_def [abs_def])
  then have "map identity_fields (db (snd (run_campaign env svc llm link st))) =
      map identity_fields (db st)"
    by (induction rule: list_all2_induct) simp_all
  with a show ?thesis by simp
qed

text \<open>
  Claim C8, as stated: has\_review is among the fields left unchanged. In the end-to-end
  scenario (request sent, answer received, thanks sent) \<open>mark_done\<close> sets it.
\<close>

theorem campaign_frame_counterexample:
  "map has_review (db (start [ayesha])) = [False] \<and>
   map has_review
     (db (snd (run_campaign answering svc0 (\<lambda>p. PostRaises (Exn RequestsTimeout []))
                 ''https://g.page/r/shop/review'' (start [ayesha])))) = [True]"
  by code_simp

theorem campaign_frame_witness:
  "map identity_fields
     (db (snd (run_campaign answering svc0 (\<lambda>p. PostRaises (Exn RequestsTimeout []))
                 ''https://g.page/r/shop/review'' (start [ayesha, bilal])))) =
   [identity_fields ayesha, identity_fields bilal]"
  using campaign_frame [of "start [ayesha, bilal]" answering svc0
          "\<lambda>p. PostRaises (Exn RequestsTimeout [])" "''https://g.page/r/shop/review''"]
  by (simp add: start_def)

subsection \<open>A block indicator during the run\<close>

lemma send_message_blocked:
  assumes "client (provider s) \<noteq> None"
      and "check_for_blocks (page_source env (now s)) = Inr True"
  shows "send_message env ph m s =
           (Inl (Exn WhatsAppBlockedError ''WhatsApp blocking detected''),
            s\<lparr>now := step env (now s)\<rparr>)"
  using assms by (auto simp: send_message_def open_chat_def Let_def)

lemma campaign_step_blocked:
  assumes "client (provider (session st)) \<noteq> None" and "\<not> has_review cust"
      and "check_for_blocks (page_source env (now (session st))) = Inr True"
  shows "campaign_step env svc llm link pending cust st =
           (Continue,
            st\<lparr>session := (session st)\<lparr>now := step env (now (session st))\<rparr>,
               db := mark_error (customer_id cust) ''WhatsApp blocking detected'' (db st)\<rparr>)"
  using assms
  by (simp add: campaign_step_def process_customer_def request_review_def Let_def
        send_message_blocked)

lemma update_customer_others:
  assumes "\<And>row. customer_id (updates row) = customer_id row"
  shows "filter (\<lambda>row. customer_id row \<noteq> cid) (update_customer cid updates rows) =
         filter (\<lambda>row. customer_id row \<noteq> cid) rows"
  using assms by (induction rows) (auto simp: update_customer_def)

lemma update_customer_status:
  assumes "\<And>row. status (updates row) = v" and "\<And>row. customer_id (updates row) = customer_id row"
  shows "map status (filter (\<lambda>row. customer_id row = cid) (update_customer cid updates rows)) =
         map (\<lambda>row. v) (filter (\<lambda>row. customer_id row = cid) rows)"
  using assms by (induction rows) (auto simp: update_customer_def)

lemma read_latest_provider [simp]:
  "provider (snd (read_latest_incoming_message env s)) = provider s"
  by (auto simp: read_latest_incoming_message_def Let_def split: sum.splits)

lemma campaign_step_blocked_review:
  assumes "client (provider (session st)) \<noteq> None" and "has_review cust"
      and "read_latest_incoming_message env (session st) = (Inr (Some m), s1)" and "m \<noteq> []"
      and "fst (classify svc llm m) = Inr lab"
      and "check_for_blocks (page_source env (now s1)) = Inr True"
  shows "campaign_step env svc llm link pending cust st =
           (Continue,
            st\<lparr>session := s1\<lparr>now := step env (now s1)\<rparr>,
               db := mark_error (customer_id cust) ''WhatsApp blocking detected'' (db st)\<rparr>)"
proof -
  from assms(1,3) have "client (provider s1) \<noteq> None"
    using read_latest_provider [of env "session st"] by simp
  from send_message_blocked [OF this assms(6)]
  have "answer_review env svc llm link cust m ''Failed to send message'' (st\<lparr>session := s1\<rparr>) =
          (Some (Exn WhatsAppBlockedError ''WhatsApp blocking detected''),
           st\<lparr>session := s1\<lparr>now := step env (now s1)\<rparr>\<rparr>)"
    using assms(5) by (simp add: answer_review_def Let_def)
  with assms(1-4) show ?thesis
    by (auto simp: campaign_step_def process_customer_def existing_review_def)
qed

text \<open>
  Claim C1, amended. When the page shows a block indicator as a chat is opened,
  \<open>open_chat\<close> raises \<open>WhatsAppBlockedError\<close> and the provider's \<open>send_message\<close> lets it pass;
  in the loop, for a customer without review (the request is the first thing sent) and for
  a customer with a review whose latest message was read and classified, the handler of the
  loop body catches it as an \<open>Exception\<close>: the rows of this customer get status error (with
  the text of the exception as audit message), the rows of all other customers are
  untouched, and the loop goes on with the remaining customers.
\<close>

theorem block_marks_error_and_continues:
  assumes "client (provider (session st)) \<noteq> None"
  shows "(check_for_blocks (page_source env (now (session st))) = Inr True \<longrightarrow>
            fst (open_chat env ph (session st)) =
              Inl (Exn WhatsAppBlockedError ''WhatsApp blocking detected'') \<and>
            fst (send_message env ph body (session st)) =
              Inl (Exn WhatsAppBlockedError ''WhatsApp blocking detected'')) \<and>
         (\<not> has_review cust \<and>
          check_for_blocks (page_source env (now (session st))) = Inr True \<longrightarrow>
            campaign_loop env svc llm link pending (cust # rest) st =
              campaign_loop env svc llm link pending rest
                (st\<lparr>session := (session st)\<lparr>now := step env (now (session st))\<rparr>,
                    db := mark_error (customer_id cust) ''WhatsApp blocking detected'' (db st)\<rparr>)) \<and>
         (has_review cust \<and>
          read_latest_incoming_message env (session st) = (Inr (Some m), s1) \<and> m \<noteq> [] \<and>
          fst (classify svc llm m) = Inr lab \<and>
          check_for_blocks (page_source env (now s1)) = Inr True \<longrightarrow>
            campaign_loop env svc llm link pending (cust # rest) st =
              campaign_loop env svc llm link pending rest
                (st\<lparr>session := s1\<lparr>now := step env (now s1)\<rparr>,
                    db := mark_error (customer_id cust) ''WhatsApp blocking detected'' (db st)\<rparr>)) \<and>
         filter (\<lambda>row. customer_id row \<noteq> customer_id cust)
           (mark_error (customer_id cust) ''WhatsApp blocking detected'' (db st)) =
         filter (\<lambda>row. customer_id row \<noteq> customer_id cust) (db st) \<and>
         map status (filter (\<lambda>row. customer_id row = customer_id cust)
           (mark_error (customer_id cust) ''WhatsApp blocking detected'' (db st))) =
         map (\<lambda>row. ''error'') (filter (\<lambda>row. customer_id row = customer_id cust) (db st))"
proof -
  have a: "fst (open_chat env ph (session st)) =
             Inl (Exn WhatsAppBlockedError ''WhatsApp blocking detected'') \<and>
           fst (send_message env ph body (session st)) =
             Inl (Exn WhatsAppBlockedError ''WhatsApp blocking detected'')"
    if "check_for_blocks (page_source env (now (session st))) = Inr True"
    using that assms by (simp add: open_chat_def Let_def send_message_blocked)
  have b: "campaign_loop env svc llm link pending (cust # rest) st =
           campaign_loop env svc llm link pending rest
             (st\<lparr>session := (session st)\<lparr>now := step env (now (session st))\<rparr>,
                 db := mark_error (customer_id cust) ''WhatsApp blocking detected'' (db st)\<rparr>)"
    if "\<not> has_review cust" "check_for_blocks (page_source env (now (session st))) = Inr True"
    using that assms by (simp add: campaign_step_blocked)
  have c: "campaign_loop env svc llm link pending (cust # rest) st =
              campaign_loop env svc llm link pending rest
                (st\<lparr>session := s1\<lparr>now := step env (now s1)\<rparr>,
                    db := mark_error (customer_id cust) ''WhatsApp blocking detected'' (db st)\<rparr>)"
    if "has_review cust" "read_latest_incoming_message env (session st) = (Inr (Some m), s1)"
       "m \<noteq> []" "fst (classify svc llm m) = Inr lab"
       "check_for_blocks (page_source env (now s1)) = Inr True"
    using campaign_step_blocked_review [OF assms that] by simp
  have d: "filter (\<lambda>row. customer_id row \<noteq> customer_id cust)
           (mark_error (customer_id cust) ''WhatsApp blocking detected'' (db st)) =
         filter (\<lambda>row. customer_id row \<noteq> customer_id cust) (db st)"
    unfolding mark_error_def by (rule update_customer_others) simp
  have e: "map status (filter (\<lambda>row. customer_id row = customer_id cust)
           (mark_error (customer_id cust) ''WhatsApp blocking detected'' (db st))) =
         map (\<lambda>row. ''error'') (filter (\<lambda>row. customer_id row = customer_id cust) (db st))"
    unfolding mark_error_def by (rule update_customer_status) simp_all
  from a b c d e show ?thesis by blast
qed

text \<open>
  Claim C1, as stated: the campaign halts at the block, and the blocked customer is not
  merely marked in error. With a warning on the page when the first of two chats is opened,
  the run ends normally, the first customer is in error and the second one is done.
\<close>

theorem block_counterexample:
  "fst (run_campaign warned svc0 (\<lambda>p. PostRaises (Exn RequestsTimeout []))
          ''https://g.page/r/shop/review'' (start [ayesha, bilal])) = None \<and>
   map status
     (db (snd (run_campaign warned svc0 (\<lambda>p. PostRaises (Exn RequestsTimeout []))
                 ''https://g.page/r/shop/review'' (start [ayesha, bilal])))) =
     [''error'', ''done''] \<and>
   map last_message
     (db (snd (run_campaign warned svc0 (\<lambda>p. PostRaises (Exn RequestsTimeout []))
                 ''https://g.page/r/shop/review'' (start [ayesha])))) =
     [''Error: WhatsApp blocking detected'']"
  by code_simp

theorem block_marks_error_and_continues_witness:
  "map status
     (db (snd (campaign_loop warned svc0 (\<lambda>p. PostRaises (Exn RequestsTimeout []))
                 ''https://g.page/r/shop/review'' [ayesha, bilal] [ayesha, bilal]
                 (logged_in_at 3 [ayesha, bilal])))) = [''error'', ''done''] \<and>
   map status
     (db (snd (campaign_loop warned svc0 (\<lambda>p. PostRaises (Exn RequestsTimeout []))
                 ''https://g.page/r/shop/review'' [ayesha\<lparr>has_review := True\<rparr>]
                 [ayesha\<lparr>has_review := True\<rparr>]
                 (logged_in_at 2 [ayesha\<lparr>has_review := True\<rparr>])))) = [''error'']"
proof -
  have h1: "client (provider (session (logged_in_at 3 [ayesha, bilal]))) \<noteq> None"
    by (simp add: logged_in_at_def logged_in_def)
  have h2: "\<not> has_review ayesha" by (simp add: ayesha_def)
  have h3: "check_for_blocks (page_source warned (now (session (logged_in_at 3 [ayesha, bilal]))))
              = Inr True"
    by code_simp
  have v: "map status
     (db (snd (campaign_loop warned svc0 (\<lambda>p. PostRaises (Exn RequestsTimeout []))
                 ''https://g.page/r/shop/review'' [ayesha, bilal] [bilal]
                 ((logged_in_at 3 [ayesha, bilal])
                    \<lparr>session := (session (logged_in_at 3 [ayesha, bilal]))
                        \<lparr>now := step warned (now (session (logged_in_at 3 [ayesha, bilal])))\<rparr>,
                     db := mark_error (customer_id ayesha) ''WhatsApp blocking detected''
                             (db (logged_in_at 3 [ayesha, bilal]))\<rparr>)))) = [''error'', ''done'']"
    by code_simp
  have first: "campaign_loop warned svc0 (\<lambda>p. PostRaises (Exn RequestsTimeout []))
                 ''https://g.page/r/shop/review'' [ayesha, bilal] (ayesha # [bilal])
                 (logged_in_at 3 [ayesha, bilal]) =
        campaign_loop warned svc0 (\<lambda>p. PostRaises (Exn RequestsTimeout []))
                 ''https://g.page/r/shop/review'' [ayesha, bilal] [bilal]
                 ((logged_in_at 3 [ayesha, bilal])
                    \<lparr>session := (session (logged_in_at 3 [ayesha, bilal]))
                        \<lparr>now := step warned (now (session (logged_in_at 3 [ayesha, bilal])))\<rparr>,
                     db := mark_error (customer_id ayesha) ''WhatsApp blocking detected''
                             (db (logged_in_at 3 [ayesha, bilal]))\<rparr>)"
    using block_marks_error_and_continues [OF h1, where env = warned and cust = ayesha
            and svc = svc0 and llm = "\<lambda>p. PostRaises (Exn RequestsTimeout [])"
            and link = "''https://g.page/r/shop/review''" and pending = "[ayesha, bilal]"
            and rest = "[bilal]"] h2 h3
    by blast
  have k1: "client (provider (session (logged_in_at 2 [ayesha\<lparr>has_review := True\<rparr>]))) \<noteq> None"
    by (simp add: logged_in_at_def logged_in_def)
  have k2: "has_review (ayesha\<lparr>has_review := True\<rparr>)" by simp
  have k3: "read_latest_incoming_message warned
              (session (logged_in_at 2 [ayesha\<lparr>has_review := True\<rparr>])) =
            (Inr (Some ''Hi''), logged_in\<lparr>now := 3\<rparr>)"
    by code_simp
  have k4: "fst (classify svc0 (\<lambda>p. PostRaises (Exn RequestsTimeout [])) ''Hi'') = Inr NEUTRAL"
    by code_simp
  have k5: "check_for_blocks (page_source warned (now (logged_in\<lparr>now := 3\<rparr>))) = Inr True"
    by code_simp
  have w: "map status
     (db (snd (campaign_loop warned svc0 (\<lambda>p. PostRaises (Exn RequestsTimeout []))
                 ''https://g.page/r/shop/review'' [ayesha\<lparr>has_review := True\<rparr>] []
                 ((logged_in_at 2 [ayesha\<lparr>has_review := True\<rparr>])
                    \<lparr>session := (logged_in\<lparr>now := 3\<rparr>)
                        \<lparr>now := step warned (now (logged_in\<lparr>now := 3\<rparr>))\<rparr>,
                     db := mark_error (customer_id (ayesha\<lparr>has_review := True\<rparr>))
                             ''WhatsApp blocking detected''
                             (db (logged_in_at 2 [ayesha\<lparr>has_review := True\<rparr>]))\<rparr>)))) = [''error'']"
    by code_simp
  have second: "campaign_loop warned svc0 (\<lambda>p. PostRaises (Exn RequestsTimeout []))
                 ''https://g.page/r/shop/review'' [ayesha\<lparr>has_review := True\<rparr>]
                 (ayesha\<lparr>has_review := True\<rparr> # [])
                 (logged_in_at 2 [ayesha\<lparr>has_review := True\<rparr>]) =
        campaign_loop warned svc0 (\<lambda>p. PostRaises (Exn RequestsTimeout []))
                 ''https://g.page/r/shop/review'' [ayesha\<lparr>has_review := True\<rparr>] []
                 ((logged_in_at 2 [ayesha\<lparr>has_review := True\<rparr>])
                    \<lparr>session := (logged_in\<lparr>now := 3\<rparr>)
                        \<lparr>now := step warned (now (logged_in\<lparr>now := 3\<rparr>))\<rparr>,
                     db := mark_error (customer_id (ayesha\<lparr>has_review := True\<rparr>))
                             ''WhatsApp blocking detected''
                             (db (logged_in_at 2 [ayesha\<lparr>has_review := True\<rparr>]))\<rparr>)"
    using block_marks_error_and_continues [OF k1, where env = warned
            and cust = "ayesha\<lparr>has_review := True\<rparr>"
            and svc = svc0 and llm = "\<lambda>p. PostRaises (Exn RequestsTimeout [])"
            and link = "''https://g.page/r/shop/review''"
            and pending = "[ayesha\<lparr>has_review := True\<rparr>]"
            and rest = "[]" and m = "''Hi''" and ?s1.0 = "logged_in\<lparr>now := 3\<rparr>"
            and lab = NEUTRAL] k2 k3 k4 k5
    by blast
  from first second v w show ?thesis by simp
qed

end
